theory Spec2Isabelle
  imports Main
begin

section \<open>Data model (app/models.py)\<close>

text \<open>
  The relational store of the application: the \<^verbatim>\<open>events\<close> and \<^verbatim>\<open>registrations\<close>
  tables and the set of user ids. Columns that the seat, waitlist, status and attendance
  logic never reads (title, description, price, qr_code, ...) are left out.
  A \<^verbatim>\<open>DateTime\<close> is an integer time stamp: only its order and equality are used.
  Python integers are unbounded, so seat counters are \<open>int\<close>.
  Status columns are strings, as in the source.
\<close>

type_synonym datetime = int

record event =
  max_participants :: int
  available_seats :: int
  event_date :: datetime
  registration_deadline :: datetime
  is_paid :: bool
  allow_waitlist :: bool
  is_active :: bool
  organizer_id :: nat
  status :: string
  status_reason :: "string option"
  postponed_to :: "datetime option"
  cancelled_at :: "datetime option"
  updated_at :: datetime

record registration =
  reg_id :: nat
  user_id :: nat
  event_id :: nat
  reg_status :: string
  payment_status :: string
  attended :: bool
  attendance_time :: "datetime option"
  created_at :: datetime

text \<open>
  The events table is a map from the primary key to the row; the registrations table is
  the list of its rows in table order (a query without \<^verbatim>\<open>order_by\<close> answers in that
  order).
\<close>

record store =
  users :: "nat set"
  events :: "nat \<rightharpoonup> event"
  registrations :: "registration list"

text \<open>
  What a request reads from outside the store: the clock (\<^verbatim>\<open>datetime.utcnow()\<close>),
  whether the QR file operations of the request (\<^verbatim>\<open>generate_qr_file\<close>,
  \<^verbatim>\<open>os.remove\<close>) run without raising, and whether the store accepts the request's
  \<^verbatim>\<open>db.session.commit()\<close>. A failed transaction is rolled back: the store is as before.
\<close>

record env =
  now :: datetime
  qr_ok :: bool
  commit_ok :: bool

datatype closed_reason = StatusGate | DeadlinePassed

datatype error =
    EventNotFound
  | UserNotFound
  | RegistrationNotFound
  | RegistrationClosed closed_reason
  | AlreadyRegistered
  | EventFull
  | AccessDenied
  | CannotCancelAttended
  | ValidationError
  | StoreError

datatype register_result = Confirmed nat | Waitlisted

datatype attendance_result = Marked | AlreadyMarked

section \<open>Queries and row updates\<close>

text \<open>\<^verbatim>\<open>Registration.query.get(registration_id)\<close>\<close>

definition get_registration :: "registration list \<Rightarrow> nat \<Rightarrow> registration option" where
  "get_registration regs rid = find (\<lambda>r. reg_id r = rid) regs"

text \<open>\<^verbatim>\<open>Registration.query.filter_by(user_id=..., event_id=...).first()\<close>\<close>

definition first_registration :: "registration list \<Rightarrow> nat \<Rightarrow> nat \<Rightarrow> registration option" where
  "first_registration regs uid eid = find (\<lambda>r. user_id r = uid \<and> event_id r = eid) regs"

text \<open>
  \<^verbatim>\<open>Registration.query.filter_by(event_id=..., status='waitlist')
      .order_by(Registration.created_at.asc()).first()\<close>
  The sort is stable: among rows of equal \<open>created_at\<close> the first in table order is taken.
\<close>

definition oldest_waitlist :: "registration list \<Rightarrow> nat \<Rightarrow> registration option" where
  "oldest_waitlist regs eid =
     (case sort_key created_at
             (filter (\<lambda>r. event_id r = eid \<and> reg_status r = ''waitlist'') regs) of
        [] \<Rightarrow> None
      | r # _ \<Rightarrow> Some r)"

text \<open>\<^verbatim>\<open>Registration.query.filter_by(event_id=..., status='confirmed').count()\<close>\<close>

definition confirmed_count :: "registration list \<Rightarrow> nat \<Rightarrow> nat" where
  "confirmed_count regs eid =
     length (filter (\<lambda>r. event_id r = eid \<and> reg_status r = ''confirmed'') regs)"

text \<open>An attribute write on a loaded row, flushed as an UPDATE by primary key.\<close>

definition update_registration ::
  "nat \<Rightarrow> (registration \<Rightarrow> registration) \<Rightarrow> registration list \<Rightarrow> registration list" where
  "update_registration rid f regs = map (\<lambda>r. if reg_id r = rid then f r else r) regs"

text \<open>\<^verbatim>\<open>db.session.delete(registration)\<close>\<close>

definition delete_registration :: "nat \<Rightarrow> registration list \<Rightarrow> registration list" where
  "delete_registration rid regs = filter (\<lambda>r. reg_id r \<noteq> rid) regs"

text \<open>The primary key of an inserted row: one more than the largest key in the table.\<close>

definition next_registration_id :: "registration list \<Rightarrow> nat" where
  "next_registration_id regs = Suc (foldr max (map reg_id regs) 0)"

text \<open>
  \<^verbatim>\<open>Registration(user_id=..., event_id=..., status=..., payment_status=...)\<close> with the
  column defaults \<^verbatim>\<open>attended=False\<close> and \<^verbatim>\<open>created_at=datetime.utcnow\<close>.
\<close>

definition new_registration ::
  "nat \<Rightarrow> nat \<Rightarrow> nat \<Rightarrow> string \<Rightarrow> string \<Rightarrow> datetime \<Rightarrow> registration" where
  "new_registration rid uid eid st pay t =
     \<lparr>reg_id = rid, user_id = uid, event_id = eid, reg_status = st, payment_status = pay,
      attended = False, attendance_time = None, created_at = t\<rparr>"

text \<open>\<^verbatim>\<open>'pending' if event.is_paid else 'not_required'\<close>\<close>

definition payment_for :: "event \<Rightarrow> string" where
  "payment_for e = (if is_paid e then ''pending'' else ''not_required'')"

text \<open>\<^verbatim>\<open>getattr(event, 'status', 'active') or 'active'\<close>\<close>

definition status_or_active :: "event \<Rightarrow> string" where
  "status_or_active e = (if status e = [] then ''active'' else status e)"

text \<open>\<^verbatim>\<open>event.available_seats or 0\<close> (the column is not nullable)\<close>

definition seats_or_zero :: "event \<Rightarrow> int" where
  "seats_or_zero e = (if available_seats e = 0 then 0 else available_seats e)"

section \<open>Seat Allocator: register (app/participant/routes.py, register_event)\<close>

text \<open>
  \<^verbatim>\<open>UPDATE events SET available_seats = available_seats - 1
     WHERE id = :event_id AND available_seats > 0\<close>
  with the number of rows it changed.
\<close>

definition decrement_seat :: "store \<Rightarrow> nat \<Rightarrow> store \<times> nat" where
  "decrement_seat s eid =
     (case events s eid of
        None \<Rightarrow> (s, 0)
      | Some e \<Rightarrow>
          if available_seats e > 0
          then (s\<lparr>events := (events s)(eid \<mapsto> e\<lparr>available_seats := available_seats e - 1\<rparr>)\<rparr>, 1)
          else (s, 0))"

text \<open>The branch \<^verbatim>\<open>if existing.status == 'cancelled'\<close>: re-registration over the old row.\<close>

definition reregister ::
  "env \<Rightarrow> store \<Rightarrow> nat \<Rightarrow> event \<Rightarrow> registration \<Rightarrow> store \<times> (error + register_result)" where
  "reregister env s eid e existing =
     (if seats_or_zero e \<le> 0 then (s, Inl EventFull)
      else if qr_ok env \<and> commit_ok env then
        (s\<lparr>events := (events s)(eid \<mapsto> e\<lparr>available_seats := available_seats e - 1\<rparr>),
           registrations :=
             update_registration (reg_id existing)
               (\<lambda>r. r\<lparr>reg_status := ''confirmed'', payment_status := payment_for e\<rparr>)
               (registrations s)\<rparr>,
         Inr (Confirmed (reg_id existing)))
      else (s, Inl StoreError))"

text \<open>The waitlist path: a new row with status \<^verbatim>\<open>waitlist\<close>, no seat consumed.\<close>

definition join_waitlist ::
  "env \<Rightarrow> store \<Rightarrow> nat \<Rightarrow> nat \<Rightarrow> store \<times> (error + register_result)" where
  "join_waitlist env s uid eid =
     (if commit_ok env then
        (s\<lparr>registrations := registrations s @
             [new_registration (next_registration_id (registrations s)) uid eid
                ''waitlist'' ''not_required'' (now env)]\<rparr>,
         Inr Waitlisted)
      else (s, Inl StoreError))"

text \<open>
  The atomic seat decrement followed by the insert of the confirmed row; when the QR file
  or the commit fails the whole transaction, decrement included, is rolled back.
\<close>

definition confirm_new ::
  "env \<Rightarrow> store \<Rightarrow> nat \<Rightarrow> nat \<Rightarrow> event \<Rightarrow> store \<times> (error + register_result)" where
  "confirm_new env s uid eid e =
     (case decrement_seat s eid of
        (s1, rowcount) \<Rightarrow>
          if rowcount = 0 then (s, Inl EventFull)
          else if qr_ok env \<and> commit_ok env then
            (s1\<lparr>registrations := registrations s1 @
                 [new_registration (next_registration_id (registrations s1)) uid eid
                    ''confirmed'' (payment_for e) (now env)]\<rparr>,
             Inr (Confirmed (next_registration_id (registrations s1))))
          else (s, Inl StoreError))"

definition register_event ::
  "env \<Rightarrow> store \<Rightarrow> nat \<Rightarrow> nat \<Rightarrow> store \<times> (error + register_result)" where
  "register_event env s current_user eid =
     (case events s eid of
        None \<Rightarrow> (s, Inl EventNotFound)
      | Some e \<Rightarrow>
          if status_or_active e \<in> {''cancelled'', ''postponed''}
          then (s, Inl (RegistrationClosed StatusGate))
          else
            (case first_registration (registrations s) current_user eid of
               Some existing \<Rightarrow>
                 if reg_status existing = ''cancelled''
                 then reregister env s eid e existing
                 else (s, Inl AlreadyRegistered)
             | None \<Rightarrow>
                 if now env > registration_deadline e
                 then (s, Inl (RegistrationClosed DeadlinePassed))
                 else if seats_or_zero e \<le> 0
                 then (if allow_waitlist e then join_waitlist env s current_user eid
                       else (s, Inl EventFull))
                 else confirm_new env s current_user eid e))"

section \<open>RegistrationService.register_for_event (app/services/registration_service.py)\<close>

definition register_for_event ::
  "env \<Rightarrow> store \<Rightarrow> nat \<Rightarrow> nat \<Rightarrow> store \<times> (error + register_result)" where
  "register_for_event env s uid eid =
     (if uid \<notin> users s then (s, Inl UserNotFound)
      else
        (case events s eid of
           None \<Rightarrow> (s, Inl EventNotFound)
         | Some e \<Rightarrow>
             if now env > registration_deadline e
             then (s, Inl (RegistrationClosed DeadlinePassed))
             else
               (case first_registration (registrations s) uid eid of
                  Some existing \<Rightarrow> (s, Inl AlreadyRegistered)
                | None \<Rightarrow>
                    if available_seats e \<le> 0 then (s, Inl EventFull)
                    else if commit_ok env then
                      (s\<lparr>events := (events s)(eid \<mapsto> e\<lparr>available_seats := available_seats e - 1\<rparr>),
                         registrations := registrations s @
                           [new_registration (next_registration_id (registrations s)) uid eid
                              ''confirmed'' (payment_for e) (now env)]\<rparr>,
                       Inr (Confirmed (next_registration_id (registrations s))))
                    else (s, Inl StoreError))))"

section \<open>Waitlist Promoter (app/services/waitlist_service.py)\<close>

text \<open>
  \<^verbatim>\<open>_atomic_promote\<close>: fresh read of the event, seat check, oldest waitlisted row,
  promotion and seat decrement in one commit. The tasks after the commit (QR file, mirror
  sync, activity log, email) run in a background thread and touch no column of the model.
\<close>

definition atomic_promote :: "env \<Rightarrow> store \<Rightarrow> nat \<Rightarrow> store \<times> registration option" where
  "atomic_promote env s eid =
     (case events s eid of
        None \<Rightarrow> (s, None)
      | Some e \<Rightarrow>
          if available_seats e \<le> 0 then (s, None)
          else
            (case oldest_waitlist (registrations s) eid of
               None \<Rightarrow> (s, None)
             | Some next_reg \<Rightarrow>
                 if commit_ok env then
                   (s\<lparr>events := (events s)(eid \<mapsto> e\<lparr>available_seats := available_seats e - 1\<rparr>),
                      registrations :=
                        update_registration (reg_id next_reg)
                          (\<lambda>r. r\<lparr>reg_status := ''confirmed''\<rparr>) (registrations s)\<rparr>,
                    Some (next_reg\<lparr>reg_status := ''confirmed''\<rparr>))
                 else (s, None)))"

text \<open>\<^verbatim>\<open>promote_from_waitlist\<close>: \<^verbatim>\<open>_atomic_promote\<close>, with any exception turned into None.\<close>

definition promote_from_waitlist :: "env \<Rightarrow> store \<Rightarrow> nat \<Rightarrow> store \<times> registration option" where
  "promote_from_waitlist env s eid = atomic_promote env s eid"

section \<open>Seat Allocator: cancel (app/participant/routes.py, cancel_registration)\<close>

text \<open>
  The transaction of the cancellation: the row is deleted and, when it was confirmed, its
  seat is returned.
\<close>

definition release_seat :: "store \<Rightarrow> registration \<Rightarrow> event \<Rightarrow> store" where
  "release_seat s r e =
     s\<lparr>events :=
         (if reg_status r = ''confirmed''
          then (events s)(event_id r \<mapsto> e\<lparr>available_seats := seats_or_zero e + 1\<rparr>)
          else events s),
       registrations := delete_registration (reg_id r) (registrations s)\<rparr>"

text \<open>
  After the commit, and only when the cancelled row was confirmed, the route calls
  \<^verbatim>\<open>promote_from_waitlist(event_id)\<close>; what the promotion returns is not used. The
  environment is one per request: the promotion reads the same \<open>commit_ok\<close> as the
  cancellation, so it is reached only with a store that accepts the commit.
\<close>

definition cancel_registration ::
  "env \<Rightarrow> store \<Rightarrow> nat \<Rightarrow> nat \<Rightarrow> store \<times> (error + unit)" where
  "cancel_registration env s current_user rid =
     (case get_registration (registrations s) rid of
        None \<Rightarrow> (s, Inl RegistrationNotFound)
      | Some r \<Rightarrow>
          if user_id r \<noteq> current_user then (s, Inl AccessDenied)
          else if attended r then (s, Inl CannotCancelAttended)
          else
            (case events s (event_id r) of
               None \<Rightarrow> (s, Inl StoreError)
             | Some e \<Rightarrow>
                 if qr_ok env \<and> commit_ok env then
                   (if reg_status r = ''confirmed''
                    then (fst (promote_from_waitlist env (release_seat s r e) (event_id r)), Inr ())
                    else (release_seat s r e, Inr ()))
                 else (s, Inl StoreError)))"

section \<open>RegistrationService.cancel_registration (app/services/registration_service.py)\<close>

text \<open>
  The service's own cancellation, with the promotion embedded in the same transaction:
  the seat is returned, the oldest waitlisted row (if any) is confirmed and takes the seat
  again, the cancelled row is deleted.
\<close>

definition embedded_promotion :: "store \<Rightarrow> nat \<Rightarrow> event \<Rightarrow> store" where
  "embedded_promotion s eid e =
     (case oldest_waitlist (registrations s) eid of
        None \<Rightarrow> s\<lparr>events := (events s)(eid \<mapsto> e\<lparr>available_seats := available_seats e + 1\<rparr>)\<rparr>
      | Some waitlist_reg \<Rightarrow>
          s\<lparr>events := (events s)(eid \<mapsto> e\<lparr>available_seats := available_seats e + 1 - 1\<rparr>),
            registrations :=
              update_registration (reg_id waitlist_reg)
                (\<lambda>r. r\<lparr>reg_status := ''confirmed''\<rparr>) (registrations s)\<rparr>)"

definition service_cancel_registration ::
  "env \<Rightarrow> store \<Rightarrow> nat \<Rightarrow> nat \<Rightarrow> store \<times> (error + unit)" where
  "service_cancel_registration env s uid eid =
     (case first_registration (registrations s) uid eid of
        None \<Rightarrow> (s, Inl RegistrationNotFound)
      | Some r \<Rightarrow>
          if attended r then (s, Inl CannotCancelAttended)
          else if reg_status r = ''confirmed'' then
            (case events s eid of
               None \<Rightarrow> (s, Inl StoreError)
             | Some e \<Rightarrow>
                 if commit_ok env then
                   ((embedded_promotion s eid e)
                      \<lparr>registrations :=
                         delete_registration (reg_id r)
                           (registrations (embedded_promotion s eid e))\<rparr>,
                    Inr ())
                 else (s, Inl StoreError))
          else if commit_ok env then
            (s\<lparr>registrations := delete_registration (reg_id r) (registrations s)\<rparr>, Inr ())
          else (s, Inl StoreError))"

section \<open>Capacity resize (app/services/event_service.py, EventService.update_event)\<close>

text \<open>
  The arguments of \<^verbatim>\<open>update_event\<close> that the model keeps. \<^verbatim>\<open>max_participants\<close> and
  \<^verbatim>\<open>allow_waitlist\<close> may be None.
\<close>

record event_form =
  form_max_participants :: "int option"
  form_event_date :: datetime
  form_registration_deadline :: datetime
  form_is_paid :: bool
  form_allow_waitlist :: "bool option"

text \<open>
  \<^verbatim>\<open>if max_participants and max_participants != event.max_participants: ...
     elif max_participants: ...\<close>
\<close>

definition resize :: "registration list \<Rightarrow> nat \<Rightarrow> int option \<Rightarrow> event \<Rightarrow> event" where
  "resize regs eid mp e =
     (case mp of
        None \<Rightarrow> e
      | Some m \<Rightarrow>
          if m \<noteq> 0 \<and> m \<noteq> max_participants e
          then e\<lparr>available_seats := max 0 (m - int (confirmed_count regs eid)),
                 max_participants := m\<rparr>
          else if m \<noteq> 0 then e\<lparr>max_participants := m\<rparr>
          else e)"

definition update_event ::
  "env \<Rightarrow> store \<Rightarrow> nat \<Rightarrow> nat \<Rightarrow> event_form \<Rightarrow> store \<times> (error + unit)" where
  "update_event env s eid organizer f =
     (case events s eid of
        None \<Rightarrow> (s, Inl EventNotFound)
      | Some e \<Rightarrow>
          if organizer_id e \<noteq> organizer then (s, Inl EventNotFound)
          else if commit_ok env then
            (s\<lparr>events := (events s)(eid \<mapsto>
                 (resize (registrations s) eid (form_max_participants f) e)
                   \<lparr>event_date := form_event_date f,
                    registration_deadline := form_registration_deadline f,
                    is_paid := form_is_paid f,
                    allow_waitlist :=
                      (case form_allow_waitlist f of
                         None \<Rightarrow> allow_waitlist e
                       | Some b \<Rightarrow> b)\<rparr>)\<rparr>,
             Inr ())
          else (s, Inl StoreError))"

section \<open>Status Controller (app/services/event_status_service.py)\<close>

definition VALID_STATUSES :: "string set" where
  "VALID_STATUSES = {''active'', ''cancelled'', ''postponed''}"

text \<open>\<^verbatim>\<open>reason or None\<close>\<close>

definition reason_or_none :: "string option \<Rightarrow> string option" where
  "reason_or_none reason = (if reason = Some [] then None else reason)"

text \<open>The column writes of \<^verbatim>\<open>update_event_status\<close> for each recognised status.\<close>

definition apply_status :: "datetime \<Rightarrow> string \<Rightarrow> string option \<Rightarrow> datetime \<Rightarrow> event \<Rightarrow> event" where
  "apply_status t new_status reason new_date e =
     (if new_status = ''cancelled''
      then e\<lparr>status := new_status, status_reason := reason_or_none reason, updated_at := t,
             cancelled_at := Some t, is_active := False\<rparr>
      else if new_status = ''postponed''
      then e\<lparr>status := new_status, status_reason := reason_or_none reason, updated_at := t,
             postponed_to := Some new_date, event_date := new_date, is_active := True,
             cancelled_at := None\<rparr>
      else if new_status = ''active''
      then e\<lparr>status := new_status, status_reason := reason_or_none reason, updated_at := t,
             is_active := True, cancelled_at := None\<rparr>
      else e\<lparr>status := new_status, status_reason := reason_or_none reason, updated_at := t\<rparr>)"

text \<open>
  \<^verbatim>\<open>update_event_status(event_id, new_status, reason, postponed_to)\<close>. The date written
  for a status other than \<^verbatim>\<open>postponed\<close> is never read by \<open>apply_status\<close>; the
  event's own date is passed there.
\<close>

definition update_event_status ::
  "env \<Rightarrow> store \<Rightarrow> nat \<Rightarrow> string \<Rightarrow> string option \<Rightarrow> datetime option \<Rightarrow> store \<times> (error + unit)" where
  "update_event_status env s eid new_status reason new_date =
     (if new_status \<notin> VALID_STATUSES then (s, Inl ValidationError)
      else
        (case events s eid of
           None \<Rightarrow> (s, Inl EventNotFound)
         | Some e \<Rightarrow>
             if new_status = ''postponed'' \<and> new_date = None then (s, Inl ValidationError)
             else if commit_ok env then
               (s\<lparr>events := (events s)(eid \<mapsto>
                    apply_status (now env) new_status reason
                      (case new_date of None \<Rightarrow> event_date e | Some d \<Rightarrow> d) e)\<rparr>,
                Inr ())
             else (s, Inl StoreError)))"

text \<open>
  \<^verbatim>\<open>_sqlite_update_event_status\<close> (app/utils/firestore_sync.py): the fallback that the
  background mirror sync of a status change runs when Firestore is unavailable.
\<close>

definition sqlite_update_event_status :: "env \<Rightarrow> store \<Rightarrow> nat \<Rightarrow> string \<Rightarrow> store" where
  "sqlite_update_event_status env s eid new_status =
     (case events s eid of
        None \<Rightarrow> s
      | Some e \<Rightarrow>
          if commit_ok env
          then s\<lparr>events := (events s)(eid \<mapsto> e\<lparr>is_active := (new_status = ''active'')\<rparr>)\<rparr>
          else s)"

section \<open>Attendance (RegistrationService.mark_attendance)\<close>

definition mark_attendance :: "env \<Rightarrow> store \<Rightarrow> nat \<Rightarrow> store \<times> (error + attendance_result)" where
  "mark_attendance env s rid =
     (case get_registration (registrations s) rid of
        None \<Rightarrow> (s, Inl RegistrationNotFound)
      | Some r \<Rightarrow>
          if attended r then (s, Inr AlreadyMarked)
          else if commit_ok env then
            (s\<lparr>registrations :=
                 update_registration rid
                   (\<lambda>r. r\<lparr>attended := True, attendance_time := Some (now env)\<rparr>)
                   (registrations s)\<rparr>,
             Inr Marked)
          else (s, Inl StoreError))"

section \<open>Sequences of requests\<close>

datatype request =
    Register nat nat
  | ServiceRegister nat nat
  | Cancel nat nat
  | ServiceCancel nat nat
  | Promote nat
  | UpdateEvent nat nat event_form
  | UpdateStatus nat string "string option" "datetime option"
  | MarkAttendance nat

fun handle :: "env \<Rightarrow> store \<Rightarrow> request \<Rightarrow> store" where
  "handle env s (Register uid eid) = fst (register_event env s uid eid)"
| "handle env s (ServiceRegister uid eid) = fst (register_for_event env s uid eid)"
| "handle env s (Cancel uid rid) = fst (cancel_registration env s uid rid)"
| "handle env s (ServiceCancel uid eid) = fst (service_cancel_registration env s uid eid)"
| "handle env s (Promote eid) = fst (promote_from_waitlist env s eid)"
| "handle env s (UpdateEvent eid organizer f) = fst (update_event env s eid organizer f)"
| "handle env s (UpdateStatus eid st reason d) = fst (update_event_status env s eid st reason d)"
| "handle env s (MarkAttendance rid) = fst (mark_attendance env s rid)"

fun run :: "store \<Rightarrow> (env \<times> request) list \<Rightarrow> store" where
  "run s [] = s"
| "run s ((env, rq) # rest) = run (handle env s rq) rest"

section \<open>Invariants of the store\<close>

text \<open>
  Conservation: the seat counter of every event is its capacity minus the number of its
  confirmed registrations.
\<close>

definition conserved :: "store \<Rightarrow> bool" where
  "conserved s \<longleftrightarrow>
     (\<forall>eid e. events s eid = Some e \<longrightarrow>
        available_seats e = max_participants e - int (confirmed_count (registrations s) eid))"

text \<open>The primary key of the registrations table is unique.\<close>

definition unique_ids :: "store \<Rightarrow> bool" where
  "unique_ids s \<longleftrightarrow> distinct (map reg_id (registrations s))"

text \<open>No seat counter is negative.\<close>

definition seats_nonneg :: "store \<Rightarrow> bool" where
  "seats_nonneg s \<longleftrightarrow> (\<forall>eid e. events s eid = Some e \<longrightarrow> 0 \<le> available_seats e)"

text \<open>
  A capacity edit respects the bookings when the new \<^verbatim>\<open>max_participants\<close> is not below
  the number of confirmed registrations of the event at the time of the edit.
\<close>

definition capacity_respected :: "store \<Rightarrow> request \<Rightarrow> bool" where
  "capacity_respected s rq =
     (case rq of
        UpdateEvent eid organizer f \<Rightarrow>
          (case form_max_participants f of
             None \<Rightarrow> True
           | Some m \<Rightarrow> int (confirmed_count (registrations s) eid) \<le> m)
      | _ \<Rightarrow> True)"

fun respects_capacity :: "store \<Rightarrow> (env \<times> request) list \<Rightarrow> bool" where
  "respects_capacity s [] = True"
| "respects_capacity s ((env, rq) # rest) =
     (capacity_respected s rq \<and> respects_capacity (handle env s rq) rest)"

section \<open>Vocabulary of the claims\<close>

text \<open>
  \<open>w\<close> is a waitlisted row of the event and no waitlisted row of the event was created
  before it.
\<close>

definition is_oldest_waitlisted :: "registration list \<Rightarrow> nat \<Rightarrow> registration \<Rightarrow> bool" where
  "is_oldest_waitlisted regs eid w \<longleftrightarrow>
     w \<in> set regs \<and> event_id w = eid \<and> reg_status w = ''waitlist'' \<and>
     (\<forall>r\<in>set regs. event_id r = eid \<and> reg_status r = ''waitlist'' \<longrightarrow>
        created_at w \<le> created_at r)"

text \<open>The primary keys of the confirmed registrations of an event.\<close>

definition confirmed_ids :: "registration list \<Rightarrow> nat \<Rightarrow> nat set" where
  "confirmed_ids regs eid =
     set (map reg_id (filter (\<lambda>r. event_id r = eid \<and> reg_status r = ''confirmed'') regs))"

text \<open>The registrations confirmed for the event in \<open>s'\<close> that were not confirmed in \<open>s\<close>.\<close>

definition newly_confirmed :: "store \<Rightarrow> store \<Rightarrow> nat \<Rightarrow> nat set" where
  "newly_confirmed s s' eid =
     confirmed_ids (registrations s') eid - confirmed_ids (registrations s) eid"

text \<open>
  The confirmed registrations of the event that \<open>s\<close> holds and \<open>s'\<close> no longer holds:
  the seats given back between the two stores.
\<close>

definition vacated :: "store \<Rightarrow> store \<Rightarrow> nat \<Rightarrow> nat set" where
  "vacated s s' eid =
     confirmed_ids (registrations s) eid - set (map reg_id (registrations s'))"

text \<open>The two cancellation requests.\<close>

fun is_cancel :: "request \<Rightarrow> bool" where
  "is_cancel (Cancel uid rid) = True"
| "is_cancel (ServiceCancel uid eid) = True"
| "is_cancel rq = False"

section \<open>Sample data\<close>

definition env_ok :: "datetime \<Rightarrow> env" where
  "env_ok t = \<lparr>now = t, qr_ok = True, commit_ok = True\<rparr>"

definition sample_event :: "int \<Rightarrow> int \<Rightarrow> bool \<Rightarrow> event" where
  "sample_event cap seats wl =
     \<lparr>max_participants = cap, available_seats = seats, event_date = 200,
      registration_deadline = 100, is_paid = False, allow_waitlist = wl, is_active = True,
      organizer_id = 9, status = ''active'', status_reason = None, postponed_to = None,
      cancelled_at = None, updated_at = 0\<rparr>"

text \<open>One event with a single seat and a waitlist, no registration yet.\<close>

definition fresh_store :: store where
  "fresh_store =
     \<lparr>users = {1, 2, 3, 9}, events = [1 \<mapsto> sample_event 1 1 True], registrations = []\<rparr>"

text \<open>An event of capacity two with both seats confirmed.\<close>

definition sold_out_store :: store where
  "sold_out_store =
     \<lparr>users = {1, 2, 3, 9},
      events = [1 \<mapsto> sample_event 2 0 True],
      registrations =
        [new_registration 1 1 1 ''confirmed'' ''not_required'' 10,
         new_registration 2 2 1 ''confirmed'' ''not_required'' 11]\<rparr>"

definition shrink_form :: event_form where
  "shrink_form =
     \<lparr>form_max_participants = Some 1, form_event_date = 200, form_registration_deadline = 100,
      form_is_paid = False, form_allow_waitlist = None\<rparr>"

text \<open>
  The scenario of the specification: A takes the only seat, B is waitlisted, A cancels and
  B is promoted; then the organizer raises the capacity to three.
\<close>

definition scenario :: "(env \<times> request) list" where
  "scenario =
     [(env_ok 10, Register 1 1), (env_ok 20, Register 2 1), (env_ok 30, Cancel 1 1),
      (env_ok 40, UpdateEvent 1 9 (shrink_form\<lparr>form_max_participants := Some 3\<rparr>))]"

text \<open>A takes the only seat of the sample event and B joins the waitlist.\<close>

definition seat_taken :: "(env \<times> request) list" where
  "seat_taken = [(env_ok 10, Register 1 1), (env_ok 20, Register 2 1)]"





text \<open>A cancelled event that still has its seat.\<close>

definition cancelled_store :: store where
  "cancelled_store =
     \<lparr>users = {1, 2, 3, 9},
      events = [1 \<mapsto> (sample_event 1 1 True)
                 \<lparr>status := ''cancelled'', is_active := False, cancelled_at := Some 30\<rparr>],
      registrations = []\<rparr>"

section \<open>Facts about the queries and row updates\<close>

lemma seats_or_zero_eq [simp]: "seats_or_zero e = available_seats e"
  by (simp add: seats_or_zero_def)

lemma get_registration_Some:
  "get_registration regs rid = Some r \<Longrightarrow> r \<in> set regs \<and> reg_id r = rid"
  unfolding get_registration_def by (auto simp: find_Some_iff)

lemma first_registration_Some:
  "first_registration regs uid eid = Some r \<Longrightarrow> r \<in> set regs \<and> user_id r = uid \<and> event_id r = eid"
  unfolding first_registration_def by (auto simp: find_Some_iff)

lemma oldest_waitlist_Some:
  assumes "oldest_waitlist regs eid = Some w"
  shows "w \<in> set regs" "event_id w = eid" "reg_status w = ''waitlist''"
    "\<And>r. r \<in> set regs \<Longrightarrow> event_id r = eid \<Longrightarrow> reg_status r = ''waitlist'' \<Longrightarrow> created_at w \<le> created_at r"
proof -
  let ?ws = "filter (\<lambda>r. event_id r = eid \<and> reg_status r = ''waitlist'') regs"
  from assms obtain rest where srt: "sort_key created_at ?ws = w # rest"
    by (auto simp: oldest_waitlist_def split: list.splits)
  have "w \<in> set (sort_key created_at ?ws)" by (simp add: srt)
  then have mem: "w \<in> set ?ws" by simp
  then show "w \<in> set regs" "event_id w = eid" "reg_status w = ''waitlist''" by auto
  fix r assume "r \<in> set regs" "event_id r = eid" "reg_status r = ''waitlist''"
  then have "r \<in> set (sort_key created_at ?ws)" by simp
  then have "r \<in> set (w # rest)" by (simp only: srt)
  moreover have "sorted (map created_at (w # rest))"
    using sorted_sort_key [of created_at ?ws] by (simp only: srt)
  ultimately show "created_at w \<le> created_at r" by auto
qed


lemma update_registration_absent:
  "rid \<notin> reg_id ` set regs \<Longrightarrow> update_registration rid f regs = regs"
  unfolding update_registration_def by (induction regs) auto

lemma map_reg_id_update:
  "(\<And>r. reg_id (f r) = reg_id r) \<Longrightarrow> map reg_id (update_registration rid f regs) = map reg_id regs"
  unfolding update_registration_def by (induction regs) auto

lemma confirmed_count_append:
  "confirmed_count (xs @ ys) eid = confirmed_count xs eid + confirmed_count ys eid"
  by (simp add: confirmed_count_def)

lemma confirmed_count_same:
  "(\<And>r. event_id (f r) = event_id r \<and> reg_status (f r) = reg_status r) \<Longrightarrow>
   confirmed_count (update_registration rid f regs) eid = confirmed_count regs eid"
  unfolding confirmed_count_def update_registration_def by (induction regs) auto

lemma split_unique:
  assumes "distinct (map reg_id regs)" "r \<in> set regs"
  shows "\<exists>ys zs. regs = ys @ r # zs \<and> reg_id r \<notin> reg_id ` set ys \<and> reg_id r \<notin> reg_id ` set zs"
proof -
  from assms(2) obtain ys zs where eq: "regs = ys @ r # zs" by (auto dest: split_list)
  with assms(1) have "reg_id r \<notin> reg_id ` set ys" "reg_id r \<notin> reg_id ` set zs" by auto
  with eq show ?thesis by blast
qed

lemma update_registration_unique:
  assumes "reg_id r \<notin> reg_id ` set ys" "reg_id r \<notin> reg_id ` set zs"
  shows "update_registration (reg_id r) f (ys @ r # zs) = ys @ f r # zs"
proof -
  have "update_registration (reg_id r) f (ys @ r # zs) =
        update_registration (reg_id r) f ys @ f r # update_registration (reg_id r) f zs"
    by (simp add: update_registration_def)
  then show ?thesis
    using assms by (simp add: update_registration_absent)
qed

lemma delete_registration_absent:
  "rid \<notin> reg_id ` set regs \<Longrightarrow> delete_registration rid regs = regs"
  unfolding delete_registration_def by (induction regs) auto

lemma delete_registration_unique:
  assumes "reg_id r \<notin> reg_id ` set ys" "reg_id r \<notin> reg_id ` set zs"
  shows "delete_registration (reg_id r) (ys @ r # zs) = ys @ zs"
proof -
  have "delete_registration (reg_id r) (ys @ r # zs) =
        delete_registration (reg_id r) ys @ delete_registration (reg_id r) zs"
    by (simp add: delete_registration_def)
  then show ?thesis
    using assms by (simp add: delete_registration_absent)
qed

lemma confirmed_count_Cons:
  "confirmed_count (x # xs) eid =
     (if event_id x = eid \<and> reg_status x = ''confirmed'' then 1 else 0) + confirmed_count xs eid"
  by (simp add: confirmed_count_def)

lemma confirmed_count_confirm:
  assumes "distinct (map reg_id regs)" "r \<in> set regs" "reg_status r \<noteq> ''confirmed''"
    and ev: "event_id (f r) = event_id r" and st: "reg_status (f r) = ''confirmed''"
  shows "confirmed_count (update_registration (reg_id r) f regs) eid =
         confirmed_count regs eid + (if event_id r = eid then 1 else 0)"
proof -
  from split_unique [OF assms(1,2)] obtain ys zs where
    eq: "regs = ys @ r # zs" and a: "reg_id r \<notin> reg_id ` set ys" "reg_id r \<notin> reg_id ` set zs"
    by blast
  have "update_registration (reg_id r) f regs = ys @ f r # zs"
    unfolding eq using a by (rule update_registration_unique)
  then show ?thesis
    using assms(3) ev st by (simp add: eq confirmed_count_append confirmed_count_Cons)
qed

lemma confirmed_count_delete:
  assumes "distinct (map reg_id regs)" "r \<in> set regs"
  shows "confirmed_count (delete_registration (reg_id r) regs) eid +
           (if event_id r = eid \<and> reg_status r = ''confirmed'' then 1 else 0) =
         confirmed_count regs eid"
proof -
  from split_unique [OF assms(1,2)] obtain ys zs where
    eq: "regs = ys @ r # zs" and a: "reg_id r \<notin> reg_id ` set ys" "reg_id r \<notin> reg_id ` set zs"
    by blast
  have "delete_registration (reg_id r) regs = ys @ zs"
    unfolding eq using a by (rule delete_registration_unique)
  then show ?thesis
    by (simp add: eq confirmed_count_append confirmed_count_Cons)
qed

lemma next_registration_id_fresh:
  "r \<in> set regs \<Longrightarrow> reg_id r < next_registration_id regs"
  unfolding next_registration_id_def by (induction regs) auto

lemma distinct_append_new:
  "distinct (map reg_id regs) \<Longrightarrow>
   distinct (map reg_id (regs @ [new_registration (next_registration_id regs) uid eid st pay t]))"
proof -
  assume d: "distinct (map reg_id regs)"
  have "next_registration_id regs \<notin> reg_id ` set regs"
    using next_registration_id_fresh [of _ regs] by fastforce
  with d show ?thesis by (simp add: new_registration_def)
qed

lemma distinct_delete:
  "distinct (map reg_id regs) \<Longrightarrow> distinct (map reg_id (delete_registration rid regs))"
  unfolding delete_registration_def by (simp add: distinct_map_filter)

section \<open>Conservation is kept by every request\<close>

lemma conservedI:
  "(\<And>eid e. events s eid = Some e \<Longrightarrow>
      available_seats e = max_participants e - int (confirmed_count (registrations s) eid)) \<Longrightarrow>
   conserved s"
  by (simp add: conserved_def)

lemma conservedD:
  "conserved s \<Longrightarrow> events s eid = Some e \<Longrightarrow>
   available_seats e = max_participants e - int (confirmed_count (registrations s) eid)"
  by (simp add: conserved_def)

lemma conserved_confirm:
  assumes c: "conserved s" and u: "unique_ids s" and ev: "events s eid = Some e"
    and w: "w \<in> set (registrations s)" "event_id w = eid" "reg_status w \<noteq> ''confirmed''"
    and f: "event_id (f w) = event_id w" "reg_status (f w) = ''confirmed''"
  shows "conserved (s\<lparr>events := (events s)(eid \<mapsto> e\<lparr>available_seats := available_seats e - 1\<rparr>),
                      registrations := update_registration (reg_id w) f (registrations s)\<rparr>)"
proof (rule conservedI)
  fix eid' e'
  let ?s' = "s\<lparr>events := (events s)(eid \<mapsto> e\<lparr>available_seats := available_seats e - 1\<rparr>),
                registrations := update_registration (reg_id w) f (registrations s)\<rparr>"
  assume a: "events ?s' eid' = Some e'"
  have cnt: "confirmed_count (registrations ?s') eid' =
             confirmed_count (registrations s) eid' + (if event_id w = eid' then 1 else 0)"
    using confirmed_count_confirm [of "registrations s" w f eid'] u w(1) w(3) f
    by (simp add: unique_ids_def)
  show "available_seats e' = max_participants e' - int (confirmed_count (registrations ?s') eid')"
  proof (cases "eid' = eid")
    case True
    with a have "e' = e\<lparr>available_seats := available_seats e - 1\<rparr>" by simp
    then show ?thesis using conservedD [OF c ev] cnt True w(2) by simp
  next
    case False
    with a have "events s eid' = Some e'" by simp
    then show ?thesis using conservedD [OF c] cnt False w(2) by simp
  qed
qed

lemma conserved_insert_confirmed:
  assumes c: "conserved s" and ev: "events s eid = Some e"
  shows "conserved (s\<lparr>events := (events s)(eid \<mapsto> e\<lparr>available_seats := available_seats e - 1\<rparr>),
                      registrations := registrations s @ [new_registration rid uid eid ''confirmed'' pay t]\<rparr>)"
proof (rule conservedI)
  fix eid' e'
  let ?s' = "s\<lparr>events := (events s)(eid \<mapsto> e\<lparr>available_seats := available_seats e - 1\<rparr>),
                registrations := registrations s @ [new_registration rid uid eid ''confirmed'' pay t]\<rparr>"
  assume a: "events ?s' eid' = Some e'"
  have cnt: "confirmed_count (registrations ?s') eid' =
             confirmed_count (registrations s) eid' + (if eid = eid' then 1 else 0)"
    by (simp add: confirmed_count_append confirmed_count_Cons new_registration_def confirmed_count_def)
  show "available_seats e' = max_participants e' - int (confirmed_count (registrations ?s') eid')"
  proof (cases "eid' = eid")
    case True
    with a have "e' = e\<lparr>available_seats := available_seats e - 1\<rparr>" by simp
    then show ?thesis using conservedD [OF c ev] cnt True by simp
  next
    case False
    with a have "events s eid' = Some e'" by simp
    then show ?thesis using conservedD [OF c] cnt False by simp
  qed
qed

lemma conserved_insert_waitlist:
  assumes c: "conserved s"
  shows "conserved (s\<lparr>registrations := registrations s @ [new_registration rid uid eid ''waitlist'' pay t]\<rparr>)"
proof (rule conservedI)
  fix eid' e'
  let ?s' = "s\<lparr>registrations := registrations s @ [new_registration rid uid eid ''waitlist'' pay t]\<rparr>"
  assume a: "events ?s' eid' = Some e'"
  have cnt: "confirmed_count (registrations ?s') eid' = confirmed_count (registrations s) eid'"
    by (simp add: confirmed_count_append confirmed_count_Cons new_registration_def confirmed_count_def)
  from a have "events s eid' = Some e'" by simp
  then show "available_seats e' = max_participants e' - int (confirmed_count (registrations ?s') eid')"
    using conservedD [OF c] cnt by simp
qed

lemma conserved_release_seat:
  assumes c: "conserved s" and u: "unique_ids s" and r: "r \<in> set (registrations s)"
    and ev: "events s (event_id r) = Some e"
  shows "conserved (release_seat s r e)"
proof (rule conservedI)
  fix eid' e'
  assume a: "events (release_seat s r e) eid' = Some e'"
  have cnt: "confirmed_count (registrations (release_seat s r e)) eid' +
               (if event_id r = eid' \<and> reg_status r = ''confirmed'' then 1 else 0) =
             confirmed_count (registrations s) eid'"
    using confirmed_count_delete [OF _ r] u by (simp add: unique_ids_def release_seat_def)
  show "available_seats e' =
        max_participants e' - int (confirmed_count (registrations (release_seat s r e)) eid')"
  proof (cases "eid' = event_id r \<and> reg_status r = ''confirmed''")
    case True
    with a have "e' = e\<lparr>available_seats := available_seats e + 1\<rparr>"
      by (simp add: release_seat_def)
    then show ?thesis using conservedD [OF c ev] cnt True by simp
  next
    case False
    with a have "events s eid' = Some e'"
      by (auto simp: release_seat_def split: if_splits)
    then show ?thesis using conservedD [OF c] cnt False by auto
  qed
qed

lemma conserved_delete_unconfirmed:
  assumes c: "conserved s" and u: "unique_ids s" and r: "r \<in> set (registrations s)"
    and st: "reg_status r \<noteq> ''confirmed''"
  shows "conserved (s\<lparr>registrations := delete_registration (reg_id r) (registrations s)\<rparr>)"
proof (rule conservedI)
  fix eid' e'
  let ?s' = "s\<lparr>registrations := delete_registration (reg_id r) (registrations s)\<rparr>"
  assume a: "events ?s' eid' = Some e'"
  have cnt: "confirmed_count (registrations ?s') eid' = confirmed_count (registrations s) eid'"
    using confirmed_count_delete [OF _ r, of eid'] u st by (simp add: unique_ids_def)
  from a have "events s eid' = Some e'" by simp
  then show "available_seats e' = max_participants e' - int (confirmed_count (registrations ?s') eid')"
    using conservedD [OF c] cnt by simp
qed

lemma conserved_same_counts:
  assumes c: "conserved s"
    and regs: "\<And>eid. confirmed_count regs' eid = confirmed_count (registrations s) eid"
  shows "conserved (s\<lparr>registrations := regs'\<rparr>)"
  using c by (simp add: conserved_def regs)

lemma conserved_event_update:
  assumes c: "conserved s" and ev: "events s eid = Some e"
    and e': "available_seats e' = max_participants e' - int (confirmed_count (registrations s) eid)"
  shows "conserved (s\<lparr>events := (events s)(eid \<mapsto> e')\<rparr>)"
  using c e' by (simp add: conserved_def)

lemma unique_ids_update:
  "(\<And>r. reg_id (f r) = reg_id r) \<Longrightarrow> distinct (map reg_id regs) \<Longrightarrow>
   distinct (map reg_id (update_registration rid f regs))"
  by (simp add: map_reg_id_update)

lemma reregister_inv:
  assumes "conserved s" "unique_ids s" "events s eid = Some e"
    and "first_registration (registrations s) uid eid = Some existing"
    and "reg_status existing = ''cancelled''"
  shows "conserved (fst (reregister env s eid e existing)) \<and>
         unique_ids (fst (reregister env s eid e existing))"
proof -
  from first_registration_Some [OF assms(4)]
  have mem: "existing \<in> set (registrations s)" and ev: "event_id existing = eid" by auto
  have ne: "reg_status existing \<noteq> ''confirmed''" using assms(5) by simp
  have "conserved (s\<lparr>events := (events s)(eid \<mapsto> e\<lparr>available_seats := available_seats e - 1\<rparr>),
           registrations :=
             update_registration (reg_id existing)
               (\<lambda>r. r\<lparr>reg_status := ''confirmed'', payment_status := payment_for e\<rparr>)
               (registrations s)\<rparr>)"
    by (rule conserved_confirm [OF assms(1,2,3) mem ev ne]) simp_all
  moreover have "distinct (map reg_id (update_registration (reg_id existing)
               (\<lambda>r. r\<lparr>reg_status := ''confirmed'', payment_status := payment_for e\<rparr>)
               (registrations s)))"
    using assms(2) by (simp add: unique_ids_def map_reg_id_update)
  ultimately show ?thesis
    using assms(1,2) by (simp add: reregister_def unique_ids_def)
qed

lemma join_waitlist_inv:
  assumes "conserved s" "unique_ids s"
  shows "conserved (fst (join_waitlist env s uid eid)) \<and>
         unique_ids (fst (join_waitlist env s uid eid))"
  using assms conserved_insert_waitlist [OF assms(1)]
    distinct_append_new [of "registrations s"]
  by (simp add: join_waitlist_def unique_ids_def)

lemma confirm_new_inv:
  assumes "conserved s" "unique_ids s" "events s eid = Some e"
  shows "conserved (fst (confirm_new env s uid eid e)) \<and>
         unique_ids (fst (confirm_new env s uid eid e))"
  using assms conserved_insert_confirmed [OF assms(1,3)]
    distinct_append_new [of "registrations s"]
  by (simp add: confirm_new_def decrement_seat_def unique_ids_def)

lemma register_event_inv:
  assumes "conserved s" "unique_ids s"
  shows "conserved (fst (register_event env s uid eid)) \<and>
         unique_ids (fst (register_event env s uid eid))"
  using assms reregister_inv [OF assms] join_waitlist_inv [OF assms] confirm_new_inv [OF assms]
  by (simp add: register_event_def split: option.splits)

lemma register_for_event_inv:
  assumes "conserved s" "unique_ids s"
  shows "conserved (fst (register_for_event env s uid eid)) \<and>
         unique_ids (fst (register_for_event env s uid eid))"
  using assms conserved_insert_confirmed [OF assms(1)]
    distinct_append_new [of "registrations s"]
  by (simp add: register_for_event_def unique_ids_def split: option.splits)

lemma atomic_promote_inv:
  assumes "conserved s" "unique_ids s"
  shows "conserved (fst (atomic_promote env s eid)) \<and>
         unique_ids (fst (atomic_promote env s eid))"
proof (cases "events s eid")
  case None
  then show ?thesis using assms by (simp add: atomic_promote_def)
next
  case (Some e)
  show ?thesis
  proof (cases "oldest_waitlist (registrations s) eid")
    case None
    then show ?thesis using assms Some by (simp add: atomic_promote_def)
  next
    case w: (Some w)
    note ow = oldest_waitlist_Some [OF w]
    have ne: "reg_status w \<noteq> ''confirmed''" using ow(3) by simp
    have "conserved (s\<lparr>events := (events s)(eid \<mapsto> e\<lparr>available_seats := available_seats e - 1\<rparr>),
             registrations := update_registration (reg_id w)
                 (\<lambda>r. r\<lparr>reg_status := ''confirmed''\<rparr>) (registrations s)\<rparr>)"
      by (rule conserved_confirm [OF assms Some ow(1) ow(2) ne]) simp_all
    moreover have "distinct (map reg_id (update_registration (reg_id w)
                 (\<lambda>r. r\<lparr>reg_status := ''confirmed''\<rparr>) (registrations s)))"
      using assms(2) by (simp add: unique_ids_def map_reg_id_update)
    ultimately show ?thesis
      using assms Some w by (simp add: atomic_promote_def unique_ids_def)
  qed
qed

lemma release_seat_unique:
  "unique_ids s \<Longrightarrow> unique_ids (release_seat s r e)"
  by (simp add: unique_ids_def release_seat_def distinct_delete)

lemma cancel_registration_inv:
  assumes "conserved s" "unique_ids s"
  shows "conserved (fst (cancel_registration env s uid rid)) \<and>
         unique_ids (fst (cancel_registration env s uid rid))"
proof (cases "get_registration (registrations s) rid")
  case None
  then show ?thesis using assms by (simp add: cancel_registration_def)
next
  case (Some r)
  from get_registration_Some [OF Some] have mem: "r \<in> set (registrations s)" by simp
  show ?thesis
  proof (cases "events s (event_id r)")
    case None
    then show ?thesis using assms Some by (simp add: cancel_registration_def)
  next
    case e: (Some e)
    have c1: "conserved (release_seat s r e)"
      by (rule conserved_release_seat [OF assms mem e])
    have u1: "unique_ids (release_seat s r e)"
      by (rule release_seat_unique [OF assms(2)])
    show ?thesis
      using assms Some e c1 u1 atomic_promote_inv [OF c1 u1]
      by (simp add: cancel_registration_def promote_from_waitlist_def)
  qed
qed

lemma delete_update_commute:
  "(\<And>x. reg_id (f x) = reg_id x) \<Longrightarrow>
   delete_registration rid (update_registration wid f regs) =
   update_registration wid f (delete_registration rid regs)"
  unfolding delete_registration_def update_registration_def by (induction regs) auto

lemma set_delete_registration:
  "set (delete_registration rid regs) = {x \<in> set regs. reg_id x \<noteq> rid}"
  by (auto simp: delete_registration_def)

lemma unique_ids_eq:
  "distinct (map reg_id regs) \<Longrightarrow> x \<in> set regs \<Longrightarrow> y \<in> set regs \<Longrightarrow>
   reg_id x = reg_id y \<Longrightarrow> x = y"
  by (meson distinct_map inj_onD)

lemma service_cancel_confirmed_inv:
  assumes c: "conserved s" and u: "unique_ids s" and ev: "events s eid = Some e"
    and r: "r \<in> set (registrations s)" "event_id r = eid" "reg_status r = ''confirmed''"
  shows "conserved ((embedded_promotion s eid e)
            \<lparr>registrations := delete_registration (reg_id r)
                (registrations (embedded_promotion s eid e))\<rparr>) \<and>
         unique_ids ((embedded_promotion s eid e)
            \<lparr>registrations := delete_registration (reg_id r)
                (registrations (embedded_promotion s eid e))\<rparr>)"
proof -
  let ?s1 = "release_seat s r e"
  have ev': "events s (event_id r) = Some e" using ev r(2) by simp
  have c1: "conserved ?s1" by (rule conserved_release_seat [OF c u r(1) ev'])
  have u1: "unique_ids ?s1" by (rule release_seat_unique [OF u])
  show ?thesis
  proof (cases "oldest_waitlist (registrations s) eid")
    case None
    then have "(embedded_promotion s eid e)
            \<lparr>registrations := delete_registration (reg_id r)
                (registrations (embedded_promotion s eid e))\<rparr> = ?s1"
      using r by (simp add: embedded_promotion_def release_seat_def)
    then show ?thesis using c1 u1 by simp
  next
    case (Some w)
    note ow = oldest_waitlist_Some [OF Some]
    let ?f = "\<lambda>x. x\<lparr>reg_status := ''confirmed''\<rparr>"
    let ?e1 = "e\<lparr>available_seats := available_seats e + 1\<rparr>"
    have d: "distinct (map reg_id (registrations s))" using u by (simp add: unique_ids_def)
    have "w \<noteq> r" using ow(3) r(3) by auto
    then have idne: "reg_id w \<noteq> reg_id r"
      using unique_ids_eq [OF d ow(1) r(1)] by blast
    then have mem1: "w \<in> set (registrations ?s1)"
      using ow(1) by (simp add: release_seat_def set_delete_registration)
    have ev1: "events ?s1 eid = Some ?e1" using r by (simp add: release_seat_def)
    have ne: "reg_status w \<noteq> ''confirmed''" using ow(3) by simp
    have c2: "conserved (?s1\<lparr>events := (events ?s1)(eid \<mapsto> ?e1\<lparr>available_seats := available_seats ?e1 - 1\<rparr>),
             registrations := update_registration (reg_id w) ?f (registrations ?s1)\<rparr>)"
      by (rule conserved_confirm [OF c1 u1 ev1 mem1 ow(2) ne]) simp_all
    have eq: "(embedded_promotion s eid e)
            \<lparr>registrations := delete_registration (reg_id r)
                (registrations (embedded_promotion s eid e))\<rparr> =
          ?s1\<lparr>events := (events ?s1)(eid \<mapsto> ?e1\<lparr>available_seats := available_seats ?e1 - 1\<rparr>),
             registrations := update_registration (reg_id w) ?f (registrations ?s1)\<rparr>"
      using Some r by (simp add: embedded_promotion_def release_seat_def delete_update_commute)
    have "distinct (map reg_id (update_registration (reg_id w) ?f (registrations ?s1)))"
      using u1 by (simp add: unique_ids_def map_reg_id_update)
    then show ?thesis using c2 unfolding eq by (simp add: unique_ids_def)
  qed
qed

lemma service_cancel_registration_inv:
  assumes "conserved s" "unique_ids s"
  shows "conserved (fst (service_cancel_registration env s uid eid)) \<and>
         unique_ids (fst (service_cancel_registration env s uid eid))"
proof (cases "first_registration (registrations s) uid eid")
  case None
  then show ?thesis using assms by (simp add: service_cancel_registration_def)
next
  case (Some r)
  from first_registration_Some [OF Some]
  have mem: "r \<in> set (registrations s)" and ev: "event_id r = eid" by auto
  show ?thesis
  proof (cases "reg_status r = ''confirmed''")
    case True
    show ?thesis
    proof (cases "events s eid")
      case None
      then show ?thesis using assms Some True by (simp add: service_cancel_registration_def)
    next
      case e: (Some e)
      show ?thesis
        using assms Some True e service_cancel_confirmed_inv [OF assms e mem ev True]
        by (simp add: service_cancel_registration_def)
    qed
  next
    case False
    have "conserved (s\<lparr>registrations := delete_registration (reg_id r) (registrations s)\<rparr>)"
      by (rule conserved_delete_unconfirmed [OF assms mem False])
    moreover have "unique_ids (s\<lparr>registrations := delete_registration (reg_id r) (registrations s)\<rparr>)"
      using assms(2) by (simp add: unique_ids_def distinct_delete)
    ultimately show ?thesis
      using assms Some False by (simp add: service_cancel_registration_def)
  qed
qed

lemma resize_conserved:
  assumes "available_seats e = max_participants e - int (confirmed_count regs eid)"
    and "case mp of None \<Rightarrow> True | Some m \<Rightarrow> int (confirmed_count regs eid) \<le> m"
  shows "available_seats (resize regs eid mp e) =
         max_participants (resize regs eid mp e) - int (confirmed_count regs eid)"
  using assms by (auto simp: resize_def split: option.splits)

lemma update_event_inv:
  assumes "conserved s" "unique_ids s"
    and "case form_max_participants f of None \<Rightarrow> True
         | Some m \<Rightarrow> int (confirmed_count (registrations s) eid) \<le> m"
  shows "conserved (fst (update_event env s eid organizer f)) \<and>
         unique_ids (fst (update_event env s eid organizer f))"
proof (cases "events s eid")
  case None
  then show ?thesis using assms by (simp add: update_event_def)
next
  case (Some e)
  have "conserved (s\<lparr>events := (events s)(eid \<mapsto>
                 (resize (registrations s) eid (form_max_participants f) e)
                   \<lparr>event_date := form_event_date f,
                    registration_deadline := form_registration_deadline f,
                    is_paid := form_is_paid f,
                    allow_waitlist :=
                      (case form_allow_waitlist f of
                         None \<Rightarrow> allow_waitlist e
                       | Some b \<Rightarrow> b)\<rparr>)\<rparr>)"
    using resize_conserved [OF conservedD [OF assms(1) Some] assms(3)]
    by (intro conserved_event_update [OF assms(1) Some]) simp
  then show ?thesis using assms Some by (simp add: update_event_def unique_ids_def)
qed

lemma update_event_status_inv:
  assumes "conserved s" "unique_ids s"
  shows "conserved (fst (update_event_status env s eid st reason d)) \<and>
         unique_ids (fst (update_event_status env s eid st reason d))"
proof (cases "events s eid")
  case None
  then show ?thesis using assms by (simp add: update_event_status_def)
next
  case (Some e)
  have "conserved (s\<lparr>events := (events s)(eid \<mapsto>
                    apply_status (now env) st reason
                      (case d of None \<Rightarrow> event_date e | Some d \<Rightarrow> d) e)\<rparr>)"
    using conservedD [OF assms(1) Some]
    by (intro conserved_event_update [OF assms(1) Some]) (simp add: apply_status_def)
  then show ?thesis using assms Some by (simp add: update_event_status_def unique_ids_def)
qed

lemma mark_attendance_inv:
  assumes "conserved s" "unique_ids s"
  shows "conserved (fst (mark_attendance env s rid)) \<and>
         unique_ids (fst (mark_attendance env s rid))"
proof -
  let ?f = "\<lambda>r. r\<lparr>attended := True, attendance_time := Some (now env)\<rparr>"
  have "conserved (s\<lparr>registrations := update_registration rid ?f (registrations s)\<rparr>)"
    by (rule conserved_same_counts [OF assms(1)]) (simp add: confirmed_count_same)
  moreover have "distinct (map reg_id (update_registration rid ?f (registrations s)))"
    using assms(2) by (simp add: unique_ids_def map_reg_id_update)
  ultimately show ?thesis
    using assms by (simp add: mark_attendance_def unique_ids_def split: option.splits)
qed

lemma handle_inv:
  assumes "conserved s" "unique_ids s" "capacity_respected s rq"
  shows "conserved (handle env s rq) \<and> unique_ids (handle env s rq)"
proof (cases rq)
  case (UpdateEvent eid organizer f)
  with assms(3) have "case form_max_participants f of None \<Rightarrow> True
         | Some m \<Rightarrow> int (confirmed_count (registrations s) eid) \<le> m"
    by (simp add: capacity_respected_def)
  from update_event_inv [OF assms(1,2) this] show ?thesis by (simp add: UpdateEvent)
qed (simp_all add: register_event_inv register_for_event_inv cancel_registration_inv
       service_cancel_registration_inv atomic_promote_inv promote_from_waitlist_def
       update_event_status_inv mark_attendance_inv assms(1,2))

lemma run_inv:
  "conserved s \<Longrightarrow> unique_ids s \<Longrightarrow> respects_capacity s reqs \<Longrightarrow>
   conserved (run s reqs) \<and> unique_ids (run s reqs)"
proof (induction reqs arbitrary: s)
  case Nil
  then show ?case by simp
next
  case (Cons a reqs)
  obtain env rq where a: "a = (env, rq)" by (cases a)
  from Cons.prems have cr: "capacity_respected s rq"
    and rest: "respects_capacity (handle env s rq) reqs" by (simp_all add: a)
  from handle_inv [OF Cons.prems(1,2) cr]
  have "conserved (handle env s rq)" "unique_ids (handle env s rq)" by simp_all
  from Cons.IH [OF this rest] show ?case by (simp add: a)
qed

text \<open>The definitions a concrete run unfolds.\<close>

lemmas model_defs =
  register_event_def reregister_def join_waitlist_def confirm_new_def decrement_seat_def
  register_for_event_def atomic_promote_def promote_from_waitlist_def release_seat_def
  cancel_registration_def embedded_promotion_def service_cancel_registration_def
  resize_def update_event_def update_event_status_def apply_status_def mark_attendance_def
  get_registration_def first_registration_def oldest_waitlist_def confirmed_count_def
  update_registration_def delete_registration_def next_registration_id_def
  new_registration_def payment_for_def status_or_active_def seats_or_zero_def
  VALID_STATUSES_def reason_or_none_def

section \<open>Promotion takes the oldest waitlisted registration\<close>

lemma oldest_waitlist_is_oldest:
  "oldest_waitlist regs eid = Some w \<Longrightarrow> is_oldest_waitlisted regs eid w"
  using oldest_waitlist_Some [of regs eid w] by (simp add: is_oldest_waitlisted_def)

lemma set_update_registration:
  "set (update_registration rid f regs) = (\<lambda>r. if reg_id r = rid then f r else r) ` set regs"
  by (simp add: update_registration_def)

lemma confirmed_ids_update:
  assumes d: "distinct (map reg_id regs)" and w: "w \<in> set regs"
    and f: "\<And>r. reg_id (f r) = reg_id r \<and> event_id (f r) = event_id r"
    and x: "x \<in> confirmed_ids (update_registration (reg_id w) f regs) eid"
           "x \<notin> confirmed_ids regs eid"
  shows "x = reg_id w \<and> event_id w = eid"
proof -
  from x(1) obtain y where y: "y \<in> set (update_registration (reg_id w) f regs)"
      "reg_id y = x" "event_id y = eid" "reg_status y = ''confirmed''"
    by (auto simp: confirmed_ids_def)
  from y(1) obtain r where r: "r \<in> set regs" "y = (if reg_id r = reg_id w then f r else r)"
    by (auto simp: set_update_registration)
  have "reg_id r = reg_id w"
  proof (rule ccontr)
    assume "reg_id r \<noteq> reg_id w"
    with r have "y \<in> set regs" by simp
    with y have "x \<in> confirmed_ids regs eid" by (auto simp: confirmed_ids_def)
    with x(2) show False by simp
  qed
  with unique_ids_eq [OF d r(1) w] have "r = w" by simp
  with r(2) have "y = f w" by simp
  with y f show ?thesis by auto
qed

lemma confirmed_ids_delete:
  "confirmed_ids (delete_registration rid regs) eid \<subseteq> confirmed_ids regs eid"
  by (auto simp: confirmed_ids_def delete_registration_def)

lemma atomic_promote_newly:
  assumes u: "unique_ids s"
    and x: "x \<in> newly_confirmed s (fst (atomic_promote env s eid0)) eid"
  shows "\<exists>w e. is_oldest_waitlisted (registrations s) eid w \<and> reg_id w = x \<and> eid0 = eid \<and>
           events s eid = Some e \<and> 0 < available_seats e"
proof (cases "events s eid0")
  case None
  then have "atomic_promote env s eid0 = (s, None)" by (simp add: atomic_promote_def)
  with x show ?thesis by (simp add: newly_confirmed_def)
next
  case (Some e)
  show ?thesis
  proof (cases "oldest_waitlist (registrations s) eid0")
    case None
    with Some have "atomic_promote env s eid0 = (s, None)" by (simp add: atomic_promote_def)
    with x show ?thesis by (simp add: newly_confirmed_def)
  next
    case w: (Some w)
    let ?f = "\<lambda>r. r\<lparr>reg_status := ''confirmed''\<rparr>"
    note ow = oldest_waitlist_Some [OF w]
    have d: "distinct (map reg_id (registrations s))" using u by (simp add: unique_ids_def)
    show ?thesis
    proof (cases "0 < available_seats e \<and> commit_ok env")
      case False
      with Some w have "atomic_promote env s eid0 = (s, None)"
        by (auto simp: atomic_promote_def)
      with x show ?thesis by (simp add: newly_confirmed_def)
    next
      case True
      with Some w have "registrations (fst (atomic_promote env s eid0)) =
          update_registration (reg_id w) ?f (registrations s)"
        by (simp add: atomic_promote_def)
      with x
      have "x \<in> confirmed_ids (update_registration (reg_id w) ?f (registrations s)) eid"
           "x \<notin> confirmed_ids (registrations s) eid"
        by (simp_all add: newly_confirmed_def)
      from confirmed_ids_update [OF d ow(1) _ this]
      have "x = reg_id w \<and> event_id w = eid" by simp
      with ow(2) oldest_waitlist_is_oldest [OF w] Some True show ?thesis by auto
    qed
  qed
qed

lemma waitlisted_kept_by_delete:
  assumes d: "distinct (map reg_id regs)" and r: "r \<in> set regs" "reg_status r \<noteq> ''waitlist''"
    and w: "is_oldest_waitlisted (delete_registration (reg_id r) regs) eid w"
  shows "is_oldest_waitlisted regs eid w"
proof -
  have keep: "y \<in> set (delete_registration (reg_id r) regs)"
    if "y \<in> set regs" "reg_status y = ''waitlist''" for y
  proof -
    from that r(2) have "y \<noteq> r" by auto
    with unique_ids_eq [OF d that(1) r(1)] have "reg_id y \<noteq> reg_id r" by blast
    with that(1) show ?thesis by (simp add: set_delete_registration)
  qed
  from w have "w \<in> set regs" by (simp add: is_oldest_waitlisted_def set_delete_registration)
  with w keep show ?thesis unfolding is_oldest_waitlisted_def by blast
qed

lemma cancel_registration_newly:
  assumes u: "unique_ids s"
    and x: "x \<in> newly_confirmed s (fst (cancel_registration env s uid rid)) eid"
  shows "\<exists>w r. is_oldest_waitlisted (registrations s) eid w \<and> reg_id w = x \<and>
           get_registration (registrations s) rid = Some r \<and> event_id r = eid \<and>
           reg_status r = ''confirmed''"
proof (cases "get_registration (registrations s) rid")
  case None
  then have "fst (cancel_registration env s uid rid) = s" by (simp add: cancel_registration_def)
  with x show ?thesis by (simp add: newly_confirmed_def)
next
  case (Some r)
  from get_registration_Some [OF Some] have mem: "r \<in> set (registrations s)" by simp
  have d: "distinct (map reg_id (registrations s))" using u by (simp add: unique_ids_def)
  show ?thesis
  proof (cases "events s (event_id r)")
    case None
    with Some have "fst (cancel_registration env s uid rid) = s"
      by (simp add: cancel_registration_def)
    with x show ?thesis by (simp add: newly_confirmed_def)
  next
    case e: (Some e)
    let ?s1 = "release_seat s r e"
    have sub: "confirmed_ids (registrations ?s1) eid \<subseteq> confirmed_ids (registrations s) eid"
      by (simp add: release_seat_def confirmed_ids_delete)
    show ?thesis
    proof (cases "reg_status r = ''confirmed'' \<and> user_id r = uid \<and> \<not> attended r \<and> qr_ok env \<and> commit_ok env")
      case False
      with Some e have "fst (cancel_registration env s uid rid) = s \<or>
          fst (cancel_registration env s uid rid) = ?s1"
        by (auto simp: cancel_registration_def)
      with x sub show ?thesis by (auto simp: newly_confirmed_def)
    next
      case True
      with Some e have "fst (cancel_registration env s uid rid) =
          fst (atomic_promote env ?s1 (event_id r))"
        by (simp add: cancel_registration_def promote_from_waitlist_def)
      with x have "x \<in> confirmed_ids (registrations (fst (atomic_promote env ?s1 (event_id r)))) eid"
          "x \<notin> confirmed_ids (registrations s) eid"
        by (simp_all add: newly_confirmed_def)
      with sub have "x \<in> newly_confirmed ?s1 (fst (atomic_promote env ?s1 (event_id r))) eid"
        by (auto simp: newly_confirmed_def)
      from atomic_promote_newly [OF release_seat_unique [OF u] this]
      obtain w where w: "is_oldest_waitlisted (registrations ?s1) eid w" "reg_id w = x"
          "event_id r = eid" by blast
      have "reg_status r \<noteq> ''waitlist''" using True by simp
      from waitlisted_kept_by_delete [OF d mem this] w(1)
      have "is_oldest_waitlisted (registrations s) eid w" by (simp add: release_seat_def)
      with w Some True show ?thesis by auto
    qed
  qed
qed

lemma service_cancel_registration_newly:
  assumes u: "unique_ids s"
    and x: "x \<in> newly_confirmed s (fst (service_cancel_registration env s uid eid0)) eid"
  shows "\<exists>w r. is_oldest_waitlisted (registrations s) eid w \<and> reg_id w = x \<and>
           first_registration (registrations s) uid eid0 = Some r \<and> event_id r = eid \<and>
           reg_status r = ''confirmed''"
proof (cases "first_registration (registrations s) uid eid0")
  case None
  then have "fst (service_cancel_registration env s uid eid0) = s"
    by (simp add: service_cancel_registration_def)
  with x show ?thesis by (simp add: newly_confirmed_def)
next
  case (Some r)
  from first_registration_Some [OF Some]
  have mem: "r \<in> set (registrations s)" and ev: "event_id r = eid0" by auto
  have d: "distinct (map reg_id (registrations s))" using u by (simp add: unique_ids_def)
  let ?f = "\<lambda>r. r\<lparr>reg_status := ''confirmed''\<rparr>"
  show ?thesis
  proof (cases "reg_status r = ''confirmed'' \<and> \<not> attended r \<and> commit_ok env")
    case False
    with Some have "registrations (fst (service_cancel_registration env s uid eid0)) = registrations s \<or>
        registrations (fst (service_cancel_registration env s uid eid0)) =
          delete_registration (reg_id r) (registrations s)"
      by (auto simp: service_cancel_registration_def split: option.splits)
    with x confirmed_ids_delete [of "reg_id r" "registrations s" eid] show ?thesis
      by (auto simp: newly_confirmed_def)
  next
    case True
    show ?thesis
    proof (cases "events s eid0")
      case None
      with Some True have "fst (service_cancel_registration env s uid eid0) = s"
        by (simp add: service_cancel_registration_def)
      with x show ?thesis by (simp add: newly_confirmed_def)
    next
      case e: (Some e)
      show ?thesis
      proof (cases "oldest_waitlist (registrations s) eid0")
        case None
        with Some True e have "registrations (fst (service_cancel_registration env s uid eid0)) =
            delete_registration (reg_id r) (registrations s)"
          by (simp add: service_cancel_registration_def embedded_promotion_def)
        with x confirmed_ids_delete [of "reg_id r" "registrations s" eid]
        show ?thesis by (auto simp: newly_confirmed_def)
      next
        case w: (Some w)
        note ow = oldest_waitlist_Some [OF w]
        from Some True e w
        have "registrations (fst (service_cancel_registration env s uid eid0)) =
            delete_registration (reg_id r)
                 (update_registration (reg_id w) ?f (registrations s))"
          by (simp add: service_cancel_registration_def embedded_promotion_def)
        with x
        have "x \<in> confirmed_ids (delete_registration (reg_id r)
                 (update_registration (reg_id w) ?f (registrations s))) eid"
            "x \<notin> confirmed_ids (registrations s) eid"
          by (simp_all add: newly_confirmed_def)
        with confirmed_ids_delete
        have "x \<in> confirmed_ids (update_registration (reg_id w) ?f (registrations s)) eid"
          by blast
        from confirmed_ids_update [OF d ow(1) _ this \<open>x \<notin> confirmed_ids (registrations s) eid\<close>]
        have "x = reg_id w \<and> event_id w = eid" by simp
        with ow(2) oldest_waitlist_is_oldest [OF w] Some True ev show ?thesis by auto
      qed
    qed
  qed
qed




section \<open>Seat counters stay non-negative\<close>

lemma seats_nonnegD:
  "seats_nonneg s \<Longrightarrow> events s eid = Some e \<Longrightarrow> 0 \<le> available_seats e"
  by (simp add: seats_nonneg_def)

lemma seats_nonneg_registrations [simp]:
  "seats_nonneg (s\<lparr>registrations := regs\<rparr>) = seats_nonneg s"
  by (simp add: seats_nonneg_def)

lemma seats_nonneg_event:
  "seats_nonneg s \<Longrightarrow> 0 \<le> available_seats e' \<Longrightarrow>
   seats_nonneg (s\<lparr>events := (events s)(eid \<mapsto> e')\<rparr>)"
  by (simp add: seats_nonneg_def)

lemma register_event_nonneg:
  assumes "seats_nonneg s"
  shows "seats_nonneg (fst (register_event env s uid eid))"
proof (cases "events s eid")
  case None
  then show ?thesis using assms by (simp add: register_event_def)
next
  case (Some e)
  from seats_nonnegD [OF assms Some] have "0 \<le> available_seats e" .
  then show ?thesis
    using assms Some
    by (auto simp: register_event_def reregister_def join_waitlist_def confirm_new_def
          decrement_seat_def seats_nonneg_event split: option.splits)
qed

lemma register_for_event_nonneg:
  assumes "seats_nonneg s"
  shows "seats_nonneg (fst (register_for_event env s uid eid))"
  using assms
  by (auto simp: register_for_event_def seats_nonneg_event split: option.splits)

lemma atomic_promote_nonneg:
  assumes "seats_nonneg s"
  shows "seats_nonneg (fst (atomic_promote env s eid))"
  using assms
  by (auto simp: atomic_promote_def seats_nonneg_event split: option.splits)

lemma release_seat_nonneg:
  assumes "seats_nonneg s" "events s (event_id r) = Some e"
  shows "seats_nonneg (release_seat s r e)"
  using assms seats_nonnegD [OF assms]
  by (auto simp: release_seat_def seats_nonneg_event)

lemma cancel_registration_nonneg:
  assumes "seats_nonneg s"
  shows "seats_nonneg (fst (cancel_registration env s uid rid))"
  using assms
  by (auto simp: cancel_registration_def promote_from_waitlist_def atomic_promote_nonneg
        release_seat_nonneg split: option.splits)

lemma service_cancel_registration_nonneg:
  assumes "seats_nonneg s"
  shows "seats_nonneg (fst (service_cancel_registration env s uid eid))"
proof (cases "events s eid")
  case None
  then show ?thesis using assms
    by (auto simp: service_cancel_registration_def split: option.splits)
next
  case (Some e)
  from seats_nonnegD [OF assms Some] have "0 \<le> available_seats e" .
  then have "seats_nonneg (embedded_promotion s eid e)"
    using assms by (auto simp: embedded_promotion_def seats_nonneg_event split: option.splits)
  then show ?thesis using assms Some
    by (auto simp: service_cancel_registration_def split: option.splits)
qed

lemma update_event_nonneg:
  assumes "seats_nonneg s"
  shows "seats_nonneg (fst (update_event env s eid organizer f))"
proof (cases "events s eid")
  case None
  then show ?thesis using assms by (simp add: update_event_def)
next
  case (Some e)
  from seats_nonnegD [OF assms Some]
  have "0 \<le> available_seats (resize (registrations s) eid (form_max_participants f) e)"
    by (auto simp: resize_def split: option.splits)
  then show ?thesis using assms Some
    by (auto simp: update_event_def seats_nonneg_event)
qed

lemma update_event_status_nonneg:
  assumes "seats_nonneg s"
  shows "seats_nonneg (fst (update_event_status env s eid st reason d))"
proof (cases "events s eid")
  case None
  then show ?thesis using assms by (simp add: update_event_status_def)
next
  case (Some e)
  from seats_nonnegD [OF assms Some]
  have "0 \<le> available_seats (apply_status (now env) st reason
          (case d of None \<Rightarrow> event_date e | Some d \<Rightarrow> d) e)"
    by (simp add: apply_status_def)
  then show ?thesis using assms Some
    by (auto simp: update_event_status_def seats_nonneg_event)
qed

lemma mark_attendance_nonneg:
  assumes "seats_nonneg s"
  shows "seats_nonneg (fst (mark_attendance env s rid))"
  using assms by (auto simp: mark_attendance_def split: option.splits)

lemma handle_nonneg:
  "seats_nonneg s \<Longrightarrow> seats_nonneg (handle env s rq)"
  by (cases rq)
    (simp_all add: register_event_nonneg register_for_event_nonneg cancel_registration_nonneg
       service_cancel_registration_nonneg atomic_promote_nonneg promote_from_waitlist_def
       update_event_nonneg update_event_status_nonneg mark_attendance_nonneg)

lemma run_nonneg:
  "seats_nonneg s \<Longrightarrow> seats_nonneg (run s reqs)"
  by (induction reqs arbitrary: s) (auto simp: handle_nonneg)

section \<open>The primary key stays unique\<close>

lemma unique_ids_events [simp]:
  "unique_ids (s\<lparr>events := ev\<rparr>) = unique_ids s"
  by (simp add: unique_ids_def)

lemma unique_ids_update_registration:
  "(\<And>r. reg_id (f r) = reg_id r) \<Longrightarrow> unique_ids s \<Longrightarrow>
   unique_ids (s\<lparr>registrations := update_registration rid f (registrations s)\<rparr>)"
  by (simp add: unique_ids_def map_reg_id_update)

lemma unique_ids_delete_registration:
  "unique_ids s \<Longrightarrow> unique_ids (s\<lparr>registrations := delete_registration rid (registrations s)\<rparr>)"
  by (simp add: unique_ids_def distinct_delete)

lemma unique_ids_insert:
  "unique_ids s \<Longrightarrow>
   unique_ids (s\<lparr>registrations := registrations s @
      [new_registration (next_registration_id (registrations s)) uid eid st pay t]\<rparr>)"
  by (simp add: unique_ids_def distinct_append_new del: distinct_append map_append)

lemma next_registration_id_notin [simp]:
  "next_registration_id regs \<notin> reg_id ` set regs"
  using next_registration_id_fresh [of _ regs] by fastforce

lemma reg_id_new_registration [simp]:
  "reg_id (new_registration rid uid eid st pay t) = rid"
  by (simp add: new_registration_def)

lemma register_event_unique:
  "unique_ids s \<Longrightarrow> unique_ids (fst (register_event env s uid eid))"
  by (auto simp: register_event_def reregister_def join_waitlist_def confirm_new_def
        decrement_seat_def unique_ids_def map_reg_id_update split: option.splits)

lemma register_for_event_unique:
  "unique_ids s \<Longrightarrow> unique_ids (fst (register_for_event env s uid eid))"
  by (auto simp: register_for_event_def unique_ids_def split: option.splits)

lemma atomic_promote_ids:
  "map reg_id (registrations (fst (atomic_promote env s eid))) = map reg_id (registrations s)"
  by (auto simp: atomic_promote_def map_reg_id_update split: option.splits)

lemma atomic_promote_unique:
  "unique_ids s \<Longrightarrow> unique_ids (fst (atomic_promote env s eid))"
  by (simp add: unique_ids_def atomic_promote_ids)

lemma cancel_registration_unique:
  "unique_ids s \<Longrightarrow> unique_ids (fst (cancel_registration env s uid rid))"
  by (auto simp: cancel_registration_def promote_from_waitlist_def atomic_promote_unique
        release_seat_unique split: option.splits)

lemma service_cancel_registration_unique:
  "unique_ids s \<Longrightarrow> unique_ids (fst (service_cancel_registration env s uid eid))"
  by (auto simp: service_cancel_registration_def embedded_promotion_def unique_ids_def
        distinct_delete map_reg_id_update split: option.splits)

lemma handle_unique:
  "unique_ids s \<Longrightarrow> unique_ids (handle env s rq)"
proof (cases rq)
  case (UpdateEvent eid organizer f)
  then show "unique_ids s \<Longrightarrow> ?thesis"
    by (auto simp: update_event_def unique_ids_def split: option.splits)
next
  case (UpdateStatus eid st reason d)
  then show "unique_ids s \<Longrightarrow> ?thesis"
    by (auto simp: update_event_status_def unique_ids_def split: option.splits)
next
  case (MarkAttendance rid)
  then show "unique_ids s \<Longrightarrow> ?thesis"
    by (auto simp: mark_attendance_def unique_ids_def map_reg_id_update split: option.splits)
qed (simp_all add: register_event_unique register_for_event_unique cancel_registration_unique
       service_cancel_registration_unique atomic_promote_unique promote_from_waitlist_def)

lemma run_unique:
  "unique_ids s \<Longrightarrow> unique_ids (run s reqs)"
  by (induction reqs arbitrary: s) (auto simp: handle_unique)

section \<open>Every confirmation is backed by a seat\<close>

lemma confirmed_ids_append:
  "confirmed_ids (regs @ [r']) eid =
     confirmed_ids regs eid \<union>
       (if event_id r' = eid \<and> reg_status r' = ''confirmed'' then {reg_id r'} else {})"
  by (auto simp: confirmed_ids_def)

lemma newly_confirmed_same [simp]:
  "registrations s' = registrations s \<Longrightarrow> newly_confirmed s s' eid = {}"
  by (simp add: newly_confirmed_def)

lemma register_event_shape:
  "registrations (fst (register_event env s uid eid0)) = registrations s \<or>
   (\<exists>r'. registrations (fst (register_event env s uid eid0)) = registrations s @ [r'] \<and>
      reg_status r' = ''waitlist'') \<or>
   (\<exists>e. events s eid0 = Some e \<and> 0 < available_seats e \<and>
      ((\<exists>r'. registrations (fst (register_event env s uid eid0)) = registrations s @ [r'] \<and>
           event_id r' = eid0) \<or>
       (\<exists>existing. first_registration (registrations s) uid eid0 = Some existing \<and>
           registrations (fst (register_event env s uid eid0)) =
             update_registration (reg_id existing)
               (\<lambda>r. r\<lparr>reg_status := ''confirmed'', payment_status := payment_for e\<rparr>)
               (registrations s))))"
  by (auto simp: register_event_def reregister_def join_waitlist_def confirm_new_def
        decrement_seat_def new_registration_def split: option.splits)

lemma register_event_newly:
  assumes u: "unique_ids s"
    and x: "x \<in> newly_confirmed s (fst (register_event env s uid eid0)) eid"
  shows "\<exists>e. events s eid = Some e \<and> 0 < available_seats e"
proof -
  let ?regs' = "registrations (fst (register_event env s uid eid0))"
  have d: "distinct (map reg_id (registrations s))" using u by (simp add: unique_ids_def)
  from x have x1: "x \<in> confirmed_ids ?regs' eid" and x2: "x \<notin> confirmed_ids (registrations s) eid"
    by (simp_all add: newly_confirmed_def)
  from register_event_shape [of env s uid eid0]
  consider (same) "?regs' = registrations s"
    | (wait) r' where "?regs' = registrations s @ [r']" "reg_status r' = ''waitlist''"
    | (new) e r' where "events s eid0 = Some e" "0 < available_seats e"
        "?regs' = registrations s @ [r']" "event_id r' = eid0"
    | (again) e existing where "events s eid0 = Some e" "0 < available_seats e"
        "first_registration (registrations s) uid eid0 = Some existing"
        "?regs' = update_registration (reg_id existing)
               (\<lambda>r. r\<lparr>reg_status := ''confirmed'', payment_status := payment_for e\<rparr>)
               (registrations s)"
    by blast
  then show ?thesis
  proof cases
    case same
    with x1 x2 show ?thesis by simp
  next
    case wait
    with x1 x2 show ?thesis by (simp add: confirmed_ids_append)
  next
    case new
    with x1 x2 have "eid0 = eid" by (auto simp: confirmed_ids_append split: if_splits)
    with new show ?thesis by auto
  next
    case again
    from first_registration_Some [OF again(3)]
    have mem: "existing \<in> set (registrations s)" and ev: "event_id existing = eid0" by auto
    from x1 have "x \<in> confirmed_ids (update_registration (reg_id existing)
               (\<lambda>r. r\<lparr>reg_status := ''confirmed'', payment_status := payment_for e\<rparr>)
               (registrations s)) eid"
      by (simp only: again(4))
    from confirmed_ids_update [OF d mem _ this x2] have "event_id existing = eid" by simp
    with ev again show ?thesis by auto
  qed
qed

lemma register_for_event_shape:
  "registrations (fst (register_for_event env s uid eid0)) = registrations s \<or>
   (\<exists>e r'. events s eid0 = Some e \<and> 0 < available_seats e \<and>
      registrations (fst (register_for_event env s uid eid0)) = registrations s @ [r'] \<and>
      event_id r' = eid0)"
  by (auto simp: register_for_event_def new_registration_def split: option.splits)

lemma register_for_event_newly:
  assumes x: "x \<in> newly_confirmed s (fst (register_for_event env s uid eid0)) eid"
  shows "\<exists>e. events s eid = Some e \<and> 0 < available_seats e"
proof -
  let ?regs' = "registrations (fst (register_for_event env s uid eid0))"
  from x have x1: "x \<in> confirmed_ids ?regs' eid" and x2: "x \<notin> confirmed_ids (registrations s) eid"
    by (simp_all add: newly_confirmed_def)
  from register_for_event_shape [of env s uid eid0]
  consider (same) "?regs' = registrations s"
    | (new) e r' where "events s eid0 = Some e" "0 < available_seats e"
        "?regs' = registrations s @ [r']" "event_id r' = eid0"
    by blast
  then show ?thesis
  proof cases
    case same
    with x1 x2 show ?thesis by simp
  next
    case new
    with x1 x2 have "eid0 = eid" by (auto simp: confirmed_ids_append split: if_splits)
    with new show ?thesis by auto
  qed
qed

lemma confirmed_ids_attendance:
  "confirmed_ids (update_registration rid
       (\<lambda>r. r\<lparr>attended := True, attendance_time := Some t\<rparr>) regs) eid =
   confirmed_ids regs eid"
  unfolding confirmed_ids_def update_registration_def by (induction regs) auto

lemma quiet_requests_newly:
  "newly_confirmed s (fst (update_event env s eid0 organizer f)) eid = {}"
  "newly_confirmed s (fst (update_event_status env s eid0 st reason d)) eid = {}"
  "newly_confirmed s (fst (mark_attendance env s rid)) eid = {}"
  by (auto simp: update_event_def update_event_status_def mark_attendance_def
        newly_confirmed_def confirmed_ids_attendance split: option.splits)

lemma confirming_needs_seat:
  assumes "unique_ids s" "\<not> is_cancel rq" "x \<in> newly_confirmed s (handle env s rq) eid"
  shows "\<exists>e. events s eid = Some e \<and> 0 < available_seats e"
proof (cases rq)
  case (Register uid eid0)
  with assms register_event_newly [of s x env uid eid0 eid] show ?thesis by simp
next
  case (ServiceRegister uid eid0)
  with assms register_for_event_newly [of x s env uid eid0 eid] show ?thesis by simp
next
  case (Promote eid0)
  with assms atomic_promote_newly [of s x env eid0 eid] show ?thesis
    by (auto simp: promote_from_waitlist_def)
qed (use assms in \<open>simp_all add: quiet_requests_newly\<close>)

lemma cancel_registration_removes:
  "fst (cancel_registration env s uid rid) = s \<or>
   rid \<notin> set (map reg_id (registrations (fst (cancel_registration env s uid rid))))"
proof (cases "get_registration (registrations s) rid")
  case None
  then show ?thesis by (simp add: cancel_registration_def)
next
  case (Some r)
  from get_registration_Some [OF Some] have id: "reg_id r = rid" by simp
  have "rid \<notin> set (map reg_id (registrations (release_seat s r e)))" for e
    using id by (auto simp: release_seat_def delete_registration_def)
  then show ?thesis using Some
    by (auto simp: cancel_registration_def promote_from_waitlist_def atomic_promote_ids
          split: option.splits simp del: set_map)
qed

lemma service_cancel_registration_removes:
  "fst (service_cancel_registration env s uid eid0) = s \<or>
   (\<exists>r. first_registration (registrations s) uid eid0 = Some r \<and>
      reg_id r \<notin> set (map reg_id (registrations (fst (service_cancel_registration env s uid eid0)))))"
  by (auto simp: service_cancel_registration_def delete_registration_def
        split: option.splits)

lemma cancelling_vacates:
  assumes u: "unique_ids s" and c: "is_cancel rq"
    and x: "x \<in> newly_confirmed s (handle env s rq) eid"
  shows "vacated s (handle env s rq) eid \<noteq> {}"
proof (cases rq)
  case (Cancel uid rid)
  from x Cancel have x': "x \<in> newly_confirmed s (fst (cancel_registration env s uid rid)) eid"
    by simp
  from cancel_registration_newly [OF u x'] obtain r where
    r: "get_registration (registrations s) rid = Some r" "event_id r = eid"
       "reg_status r = ''confirmed''" by blast
  from get_registration_Some [OF r(1)] r have "rid \<in> confirmed_ids (registrations s) eid"
    by (auto simp: confirmed_ids_def)
  moreover have "fst (cancel_registration env s uid rid) \<noteq> s"
    using x' by (auto simp: newly_confirmed_def)
  with cancel_registration_removes [of env s uid rid]
  have "rid \<notin> set (map reg_id (registrations (fst (cancel_registration env s uid rid))))"
    by blast
  ultimately show ?thesis using Cancel by (auto simp: vacated_def)
next
  case (ServiceCancel uid eid0)
  from x ServiceCancel
  have x': "x \<in> newly_confirmed s (fst (service_cancel_registration env s uid eid0)) eid"
    by simp
  from service_cancel_registration_newly [OF u x'] obtain r where
    r: "first_registration (registrations s) uid eid0 = Some r" "event_id r = eid"
       "reg_status r = ''confirmed''" by blast
  from first_registration_Some [OF r(1)] r
  have "reg_id r \<in> confirmed_ids (registrations s) eid"
    by (auto simp: confirmed_ids_def)
  moreover have "fst (service_cancel_registration env s uid eid0) \<noteq> s"
    using x' by (auto simp: newly_confirmed_def)
  with service_cancel_registration_removes [of env s uid eid0] r(1)
  have "reg_id r \<notin> set (map reg_id
      (registrations (fst (service_cancel_registration env s uid eid0))))"
    by auto
  ultimately show ?thesis using ServiceCancel by (auto simp: vacated_def)
qed (use c in simp_all)

lemma seat_taken_run:
  "run fresh_store seat_taken =
     \<lparr>users = {1, 2, 3, 9},
      events = [1 \<mapsto> sample_event 1 0 True],
      registrations =
        [new_registration 1 1 1 ''confirmed'' ''not_required'' 10,
         new_registration 2 2 1 ''waitlist'' ''not_required'' 20]\<rparr>"
  by (simp add: seat_taken_def fresh_store_def sample_event_def env_ok_def model_defs)

lemma seat_taken_cancel:
  "handle (env_ok 30) (run fresh_store seat_taken) (Cancel 1 1) =
     \<lparr>users = {1, 2, 3, 9},
      events = [1 \<mapsto> sample_event 1 0 True],
      registrations = [new_registration 2 2 1 ''confirmed'' ''not_required'' 20]\<rparr>"
  unfolding seat_taken_run
  by (simp add: sample_event_def env_ok_def model_defs)

section \<open>Status and deadline checks of the register paths, and the status fallback\<close>

text \<open>
  Outside the contract of the committed write: when Firestore is unavailable the background
  sync of a postponement runs the fallback with the new status, which writes
  \<open>is_active = (status = 'active')\<close>, that is false for a postponed event.
\<close>

lemma postponed_fallback_deactivates:
  "events s eid = Some e \<Longrightarrow> commit_ok env \<Longrightarrow>
   \<exists>e'. events (sqlite_update_event_status env s eid ''postponed'') eid = Some e' \<and> \<not> is_active e'"
  by (simp add: sqlite_update_event_status_def)

text \<open>
  The status gate of the route: whatever the seat counter, \<^verbatim>\<open>register_event\<close> on a cancelled
  or postponed event fails and leaves the store unchanged.
\<close>

lemma register_event_status_gate:
  "events s eid = Some e \<Longrightarrow> status e = ''cancelled'' \<or> status e = ''postponed'' \<Longrightarrow>
   register_event env s uid eid = (s, Inl (RegistrationClosed StatusGate))"
  by (auto simp: register_event_def status_or_active_def)

text \<open>
  The deadline check of both register paths for a user without a registration row, and of
  the service for every user.
\<close>

lemma register_event_deadline:
  "events s eid = Some e \<Longrightarrow> registration_deadline e < now env \<Longrightarrow>
   first_registration (registrations s) uid eid = None \<Longrightarrow>
   \<exists>err. register_event env s uid eid = (s, Inl (RegistrationClosed err))"
  by (auto simp: register_event_def)

lemma register_for_event_deadline:
  "events s eid = Some e \<Longrightarrow> registration_deadline e < now env \<Longrightarrow> uid \<in> users s \<Longrightarrow>
   register_for_event env s uid eid = (s, Inl (RegistrationClosed DeadlinePassed))"
  by (auto simp: register_for_event_def)

section \<open>Claims\<close>

text \<open>
  C1 (as amended). Conservation: after any sequence of register, cancel, promote, status,
  attendance and capacity-edit requests in which no capacity edit sets
  \<^verbatim>\<open>max_participants\<close> below the number of confirmed registrations of the event,
  \<open>available_seats = max_participants - count(confirmed)\<close> holds for every event, provided it
  held at the start. A capacity edit to a new, non-zero \<^verbatim>\<open>max_participants\<close> sets
  \<open>available_seats\<close> to \<open>max 0 (new_max - count(confirmed))\<close>.
\<close>

theorem conservation_under_requests:
  "(conserved s \<and> unique_ids s \<and> respects_capacity s reqs \<longrightarrow> conserved (run s reqs)) \<and>
   (events s eid = Some e \<and> organizer_id e = organizer \<and> commit_ok env \<and>
    form_max_participants f = Some m \<and> m \<noteq> 0 \<and> m \<noteq> max_participants e \<longrightarrow>
      (\<exists>e'. events (fst (update_event env s eid organizer f)) eid = Some e' \<and>
            available_seats e' = max 0 (m - int (confirmed_count (registrations s) eid)) \<and>
            max_participants e' = m))"
proof (intro conjI impI)
  assume "conserved s \<and> unique_ids s \<and> respects_capacity s reqs"
  then show "conserved (run s reqs)" using run_inv by blast
next
  assume "events s eid = Some e \<and> organizer_id e = organizer \<and> commit_ok env \<and>
    form_max_participants f = Some m \<and> m \<noteq> 0 \<and> m \<noteq> max_participants e"
  then show "\<exists>e'. events (fst (update_event env s eid organizer f)) eid = Some e' \<and>
            available_seats e' = max 0 (m - int (confirmed_count (registrations s) eid)) \<and>
            max_participants e' = m"
    by (simp add: update_event_def resize_def)
qed

text \<open>
  C1, witness: the scenario of the specification followed by a capacity edit to three
  seats keeps conservation, and shrinking the sold-out event of capacity two to one seat
  leaves \<open>available_seats = 0\<close>.
\<close>

theorem conservation_witness:
  "conserved fresh_store \<and> unique_ids fresh_store \<and> respects_capacity fresh_store scenario \<and>
   conserved (run fresh_store scenario) \<and>
   (\<exists>e'. events (fst (update_event (env_ok 50) sold_out_store 1 9 shrink_form)) 1 = Some e' \<and>
         available_seats e' = 0 \<and> max_participants e' = 1)"
proof -
  have a: "conserved fresh_store" "unique_ids fresh_store"
    by (simp_all add: conserved_def unique_ids_def fresh_store_def sample_event_def
          confirmed_count_def)
  have b: "respects_capacity fresh_store scenario"
    by (simp add: scenario_def capacity_respected_def fresh_store_def sample_event_def
          shrink_form_def env_ok_def model_defs)
  have c: "events sold_out_store 1 = Some (sample_event 2 0 True)"
    "organizer_id (sample_event 2 0 True) = 9" "commit_ok (env_ok 50)"
    "form_max_participants shrink_form = Some 1" "(1::int) \<noteq> 0"
    "1 \<noteq> max_participants (sample_event 2 0 True)"
    by (simp_all add: sold_out_store_def sample_event_def env_ok_def shrink_form_def)
  have d: "max 0 (1 - int (confirmed_count (registrations sold_out_store) 1)) = 0"
    by (simp add: sold_out_store_def confirmed_count_def new_registration_def)
  have "conserved (run fresh_store scenario)"
    using a b conservation_under_requests [where s = fresh_store and reqs = scenario]
    by blast
  moreover have "\<exists>e'. events (fst (update_event (env_ok 50) sold_out_store 1 9 shrink_form)) 1 = Some e' \<and>
         available_seats e' = 0 \<and> max_participants e' = 1"
    using c d
      conservation_under_requests [where s = sold_out_store and eid = 1 and
        e = "sample_event 2 0 True" and organizer = 9 and env = "env_ok 50" and
        f = shrink_form and m = 1]
    by simp
  ultimately show ?thesis using a b by simp
qed

text \<open>
  C1, counterexample to the claim as stated: the sold-out event of capacity two holds two
  confirmed registrations; a capacity edit to one seat sets \<open>available_seats\<close> to
  \<open>max 0 (1 - 2) = 0\<close>, which is not \<open>max_participants - count(confirmed) = -1\<close>.
\<close>

theorem conservation_counterexample:
  "conserved sold_out_store \<and>
   \<not> conserved (run sold_out_store [(env_ok 50, UpdateEvent 1 9 shrink_form)])"
proof -
  let ?s' = "run sold_out_store [(env_ok 50, UpdateEvent 1 9 shrink_form)]"
  have a: "conserved sold_out_store"
    by (simp add: conserved_def sold_out_store_def sample_event_def model_defs)
  have ev: "events ?s' 1 = Some (sample_event 1 0 True)"
    by (simp add: sold_out_store_def sample_event_def shrink_form_def env_ok_def model_defs)
  have cnt: "confirmed_count (registrations ?s') 1 = 2"
    by (simp add: sold_out_store_def sample_event_def shrink_form_def env_ok_def model_defs)
  have "\<not> conserved ?s'"
  proof
    assume "conserved ?s'"
    from conservedD [OF this ev] cnt show False
      by (simp add: sample_event_def)
  qed
  with a show ?thesis by simp
qed

text \<open>
  C2. Non-negativity and no oversell: starting from a store without a negative seat
  counter, after any sequence of requests no seat counter is negative. In every store so
  reached, a register or promote request (any request that is not a cancellation) on an
  event with \<open>available_seats \<le> 0\<close> confirms no registration of that event; and a
  cancellation confirms a registration of an event only if it removed a confirmed
  registration of that event, whose seat the promoted registration takes.
\<close>

theorem no_oversell:
  "seats_nonneg s \<and> unique_ids s \<longrightarrow>
     seats_nonneg (run s reqs) \<and>
     (\<not> is_cancel rq \<and> events (run s reqs) eid = Some e \<and> available_seats e \<le> 0 \<longrightarrow>
        newly_confirmed (run s reqs) (handle env (run s reqs) rq) eid = {}) \<and>
     (is_cancel rq \<and> x \<in> newly_confirmed (run s reqs) (handle env (run s reqs) rq) eid \<longrightarrow>
        vacated (run s reqs) (handle env (run s reqs) rq) eid \<noteq> {})"
proof (intro impI conjI)
  assume a: "seats_nonneg s \<and> unique_ids s"
  then show "seats_nonneg (run s reqs)" by (simp add: run_nonneg)
next
  assume a: "seats_nonneg s \<and> unique_ids s"
    and b: "\<not> is_cancel rq \<and> events (run s reqs) eid = Some e \<and> available_seats e \<le> 0"
  have u: "unique_ids (run s reqs)" using a by (simp add: run_unique)
  show "newly_confirmed (run s reqs) (handle env (run s reqs) rq) eid = {}"
  proof (rule ccontr)
    assume "newly_confirmed (run s reqs) (handle env (run s reqs) rq) eid \<noteq> {}"
    then obtain y where "y \<in> newly_confirmed (run s reqs) (handle env (run s reqs) rq) eid"
      by blast
    from confirming_needs_seat [OF u _ this] b show False by auto
  qed
next
  assume a: "seats_nonneg s \<and> unique_ids s"
    and c: "is_cancel rq \<and> x \<in> newly_confirmed (run s reqs) (handle env (run s reqs) rq) eid"
  have u: "unique_ids (run s reqs)" using a by (simp add: run_unique)
  from cancelling_vacates [OF u] c
  show "vacated (run s reqs) (handle env (run s reqs) rq) eid \<noteq> {}" by blast
qed

text \<open>
  C2, witness: with the only seat taken by A and B on the waitlist, the seat counter is 0
  and not negative; a further registration of user 3 confirms nobody; the cancellation of
  A confirms B (registration 2) and vacates registration 1.
\<close>

theorem no_oversell_witness:
  "seats_nonneg fresh_store \<and> unique_ids fresh_store \<and>
   seats_nonneg (run fresh_store seat_taken) \<and>
   events (run fresh_store seat_taken) 1 = Some (sample_event 1 0 True) \<and>
   newly_confirmed (run fresh_store seat_taken)
     (handle (env_ok 30) (run fresh_store seat_taken) (Register 3 1)) 1 = {} \<and>
   2 \<in> newly_confirmed (run fresh_store seat_taken)
     (handle (env_ok 30) (run fresh_store seat_taken) (Cancel 1 1)) 1 \<and>
   vacated (run fresh_store seat_taken)
     (handle (env_ok 30) (run fresh_store seat_taken) (Cancel 1 1)) 1 \<noteq> {}"
proof -
  have h: "seats_nonneg fresh_store \<and> unique_ids fresh_store"
    by (simp add: seats_nonneg_def unique_ids_def fresh_store_def sample_event_def)
  have e: "events (run fresh_store seat_taken) 1 = Some (sample_event 1 0 True)"
    "available_seats (sample_event 1 0 True) \<le> 0"
    by (simp_all add: seat_taken_run sample_event_def)
  have n: "2 \<in> newly_confirmed (run fresh_store seat_taken)
     (handle (env_ok 30) (run fresh_store seat_taken) (Cancel 1 1)) 1"
    unfolding seat_taken_cancel unfolding seat_taken_run
    by (simp add: newly_confirmed_def confirmed_ids_def new_registration_def)
  have c: "\<not> is_cancel (Register 3 1)" "is_cancel (Cancel 1 1)" by simp_all
  have "seats_nonneg (run fresh_store seat_taken)"
    using h no_oversell [where s = fresh_store and reqs = seat_taken] by blast
  moreover have "newly_confirmed (run fresh_store seat_taken)
     (handle (env_ok 30) (run fresh_store seat_taken) (Register 3 1)) 1 = {}"
    using h e c(1)
      no_oversell [where s = fresh_store and reqs = seat_taken and rq = "Register 3 1"
        and eid = 1 and e = "sample_event 1 0 True" and env = "env_ok 30"]
    by blast
  moreover have "vacated (run fresh_store seat_taken)
     (handle (env_ok 30) (run fresh_store seat_taken) (Cancel 1 1)) 1 \<noteq> {}"
    using h n c(2)
      no_oversell [where s = fresh_store and reqs = seat_taken and rq = "Cancel 1 1"
        and eid = 1 and x = 2 and env = "env_ok 30"]
    by blast
  ultimately show ?thesis using h e n by simp
qed








text \<open>
  C6, the failing input. \<^verbatim>\<open>RegistrationService.register_for_event\<close> never reads the event
  status: on the cancelled event with one seat left it confirms user 2 and takes the seat.
\<close>

theorem service_register_ignores_status:
  "(\<exists>e. events cancelled_store 1 = Some e \<and> status e = ''cancelled'' \<and> available_seats e = 1) \<and>
   snd (register_for_event (env_ok 50) cancelled_store 2 1) = Inr (Confirmed 1) \<and>
   registrations (fst (register_for_event (env_ok 50) cancelled_store 2 1)) =
     [new_registration 1 2 1 ''confirmed'' ''not_required'' 50] \<and>
   (\<exists>e'. events (fst (register_for_event (env_ok 50) cancelled_store 2 1)) 1 = Some e' \<and>
         status e' = ''cancelled'' \<and> available_seats e' = 0)"
  by (simp add: cancelled_store_def sample_event_def env_ok_def register_for_event_def
        first_registration_def next_registration_id_def new_registration_def payment_for_def)


text \<open>
  C8 (as amended). \<^verbatim>\<open>update_event_status\<close> does not consult the current status. On an
  event whose status is \<^verbatim>\<open>cancelled\<close> a call succeeds exactly when the new status is one of
  \<^verbatim>\<open>active\<close>, \<^verbatim>\<open>cancelled\<close>, \<^verbatim>\<open>postponed\<close> (the last with a date) and the commit goes
  through; it then sets the status to the new status, and for \<^verbatim>\<open>active\<close> and
  \<^verbatim>\<open>postponed\<close> makes the event active again and clears \<open>cancelled_at\<close>. A call that fails
  leaves the store unchanged.
\<close>

theorem cancelled_is_not_terminal:
  "events s eid = Some e \<and> status e = ''cancelled'' \<longrightarrow>
     (new_status \<in> VALID_STATUSES \<and> (new_status = ''postponed'' \<longrightarrow> d \<noteq> None) \<and> commit_ok env \<longrightarrow>
        (\<exists>s' e'. update_event_status env s eid new_status reason d = (s', Inr ()) \<and>
           events s' eid = Some e' \<and> status e' = new_status \<and>
           (new_status \<noteq> ''cancelled'' \<longrightarrow> is_active e' \<and> cancelled_at e' = None))) \<and>
     (\<not> (new_status \<in> VALID_STATUSES \<and> (new_status = ''postponed'' \<longrightarrow> d \<noteq> None) \<and> commit_ok env) \<longrightarrow>
        (\<exists>err. update_event_status env s eid new_status reason d = (s, Inl err)))"
  by (auto simp: update_event_status_def apply_status_def VALID_STATUSES_def)

text \<open>
  C8, witness: the cancelled event is re-activated by a call with the new status
  \<^verbatim>\<open>active\<close>, and a call with the unknown status \<^verbatim>\<open>completed\<close> fails.
\<close>

theorem cancelled_is_not_terminal_witness:
  "events cancelled_store 1 =
     Some ((sample_event 1 1 True)\<lparr>status := ''cancelled'', is_active := False, cancelled_at := Some 30\<rparr>) \<and>
   ''active'' \<in> VALID_STATUSES \<and> commit_ok (env_ok 60) \<and>
   (\<exists>s' e'. update_event_status (env_ok 60) cancelled_store 1 ''active'' None None = (s', Inr ()) \<and>
      events s' 1 = Some e' \<and> status e' = ''active'' \<and> is_active e' \<and> cancelled_at e' = None) \<and>
   ''completed'' \<notin> VALID_STATUSES \<and>
   (\<exists>err. update_event_status (env_ok 60) cancelled_store 1 ''completed'' None None =
      (cancelled_store, Inl err))"
proof -
  let ?e = "(sample_event 1 1 True)\<lparr>status := ''cancelled'', is_active := False, cancelled_at := Some 30\<rparr>"
  have h: "events cancelled_store 1 = Some ?e" "status ?e = ''cancelled''"
    "''active'' \<in> VALID_STATUSES" "commit_ok (env_ok 60)" "''completed'' \<notin> VALID_STATUSES"
    by (simp_all add: cancelled_store_def VALID_STATUSES_def env_ok_def)
  have "\<exists>s' e'. update_event_status (env_ok 60) cancelled_store 1 ''active'' None None = (s', Inr ()) \<and>
      events s' 1 = Some e' \<and> status e' = ''active'' \<and> is_active e' \<and> cancelled_at e' = None"
    using h cancelled_is_not_terminal [where s = cancelled_store and eid = 1 and e = ?e
        and new_status = "''active''" and d = None and env = "env_ok 60" and reason = None]
    by simp
  moreover have "\<exists>err. update_event_status (env_ok 60) cancelled_store 1 ''completed'' None None =
      (cancelled_store, Inl err)"
    using h cancelled_is_not_terminal [where s = cancelled_store and eid = 1 and e = ?e
        and new_status = "''completed''" and d = None and env = "env_ok 60" and reason = None]
    by simp
  ultimately show ?thesis using h by simp
qed

text \<open>
  C8, counterexample to the claim as stated: on the cancelled event the call
  \<^verbatim>\<open>update_event_status(1, 'active')\<close> succeeds and the status is \<^verbatim>\<open>active\<close> afterwards.
\<close>

theorem cancelled_terminal_counterexample:
  "(\<exists>e. events cancelled_store 1 = Some e \<and> status e = ''cancelled'') \<and>
   snd (update_event_status (env_ok 60) cancelled_store 1 ''active'' None None) = Inr () \<and>
   (\<exists>e'. events (fst (update_event_status (env_ok 60) cancelled_store 1 ''active'' None None)) 1
           = Some e' \<and> status e' = ''active'' \<and> status e' \<noteq> ''cancelled'')"
  by (simp add: cancelled_store_def sample_event_def env_ok_def update_event_status_def
        apply_status_def VALID_STATUSES_def reason_or_none_def)

text \<open>
  C9 (as amended). \<^verbatim>\<open>update_event_status(event_id, 'postponed', reason, postponed_to)\<close>
  succeeds exactly when the event exists, a \<open>postponed_to\<close> date is given (any date: it is
  not compared with the clock) and the commit goes through. The committed write sets
  \<open>event_date\<close> to \<open>postponed_to\<close>, records \<open>postponed_to\<close>, sets the status to
  \<^verbatim>\<open>postponed\<close> and sets \<open>is_active\<close> to true. A call that fails leaves the store unchanged.
\<close>

theorem postponement_contract:
  "(events s eid = None \<longrightarrow>
      update_event_status env s eid ''postponed'' reason d = (s, Inl EventNotFound)) \<and>
   (events s eid = Some e \<longrightarrow>
      (d = None \<longrightarrow> update_event_status env s eid ''postponed'' reason d = (s, Inl ValidationError)) \<and>
      (d \<noteq> None \<and> \<not> commit_ok env \<longrightarrow>
         update_event_status env s eid ''postponed'' reason d = (s, Inl StoreError)) \<and>
      (d = Some t \<and> commit_ok env \<longrightarrow>
         (\<exists>s' e'. update_event_status env s eid ''postponed'' reason d = (s', Inr ()) \<and>
            events s' eid = Some e' \<and> event_date e' = t \<and> postponed_to e' = Some t \<and>
            is_active e' \<and> status e' = ''postponed'' \<and>
            available_seats e' = available_seats e \<and> registrations s' = registrations s)))"
  by (auto simp: update_event_status_def apply_status_def VALID_STATUSES_def)

text \<open>
  C9, witness: postponing the sample event to the future date 300 at time 60 moves the
  event date; without a date the call is refused.
\<close>

theorem postponement_contract_witness:
  "events fresh_store 1 = Some (sample_event 1 1 True) \<and> commit_ok (env_ok 60) \<and>
   (\<exists>s' e'. update_event_status (env_ok 60) fresh_store 1 ''postponed'' (Some ''rain'') (Some 300)
               = (s', Inr ()) \<and>
      events s' 1 = Some e' \<and> event_date e' = 300 \<and> postponed_to e' = Some 300 \<and>
      is_active e' \<and> status e' = ''postponed'') \<and>
   update_event_status (env_ok 60) fresh_store 1 ''postponed'' (Some ''rain'') None
     = (fresh_store, Inl ValidationError) \<and>
   update_event_status (env_ok 60) fresh_store 2 ''postponed'' (Some ''rain'') (Some 300)
     = (fresh_store, Inl EventNotFound)"
proof -
  have h: "events fresh_store 1 = Some (sample_event 1 1 True)" "commit_ok (env_ok 60)"
    "events fresh_store 2 = None"
    by (simp_all add: fresh_store_def env_ok_def)
  have "\<exists>s' e'. update_event_status (env_ok 60) fresh_store 1 ''postponed'' (Some ''rain'') (Some 300)
               = (s', Inr ()) \<and>
      events s' 1 = Some e' \<and> event_date e' = 300 \<and> postponed_to e' = Some 300 \<and>
      is_active e' \<and> status e' = ''postponed''"
    using h postponement_contract [where s = fresh_store and eid = 1 and e = "sample_event 1 1 True"
        and d = "Some 300" and t = 300 and env = "env_ok 60" and reason = "Some ''rain''"]
    by auto
  moreover have "update_event_status (env_ok 60) fresh_store 1 ''postponed'' (Some ''rain'') None
     = (fresh_store, Inl ValidationError)"
    using h postponement_contract [where s = fresh_store and eid = 1 and e = "sample_event 1 1 True"
        and d = None and env = "env_ok 60" and reason = "Some ''rain''"]
    by simp
  moreover have "update_event_status (env_ok 60) fresh_store 2 ''postponed'' (Some ''rain'') (Some 300)
     = (fresh_store, Inl EventNotFound)"
    using h postponement_contract [where s = fresh_store and eid = 2
        and d = "Some 300" and env = "env_ok 60" and reason = "Some ''rain''"]
    by simp
  ultimately show ?thesis using h by simp
qed

text \<open>
  C9, counterexample to the claim as stated: at time 100 the call with the past date 50 as
  \<open>postponed_to\<close> succeeds and moves the event date to 50.
\<close>

theorem postponement_past_date_counterexample:
  "(50::int) < now (env_ok 100) \<and>
   snd (update_event_status (env_ok 100) fresh_store 1 ''postponed'' None (Some 50)) = Inr () \<and>
   (\<exists>e'. events (fst (update_event_status (env_ok 100) fresh_store 1 ''postponed'' None (Some 50))) 1
           = Some e' \<and> event_date e' = 50 \<and> status e' = ''postponed'')"
  by (simp add: fresh_store_def sample_event_def env_ok_def update_event_status_def
        apply_status_def VALID_STATUSES_def reason_or_none_def)

text \<open>
  C10. Attendance marking is a pure flag update: for an existing registration that is not
  yet attended, \<^verbatim>\<open>mark_attendance\<close> (the commit going through) sets \<open>attended\<close> and
  records the time, and changes no status, no payment status, no other row and no event;
  on an attended registration it succeeds and changes nothing, so a second call is a no-op.
\<close>

theorem attendance_is_a_flag_update:
  "get_registration (registrations s) rid = Some r \<longrightarrow>
     (attended r \<longrightarrow> mark_attendance env s rid = (s, Inr AlreadyMarked)) \<and>
     (\<not> attended r \<and> commit_ok env \<longrightarrow>
        (\<exists>s' r'. mark_attendance env s rid = (s', Inr Marked) \<and>
           events s' = events s \<and> users s' = users s \<and>
           map reg_status (registrations s') = map reg_status (registrations s) \<and>
           map payment_status (registrations s') = map payment_status (registrations s) \<and>
           map reg_id (registrations s') = map reg_id (registrations s) \<and>
           get_registration (registrations s') rid = Some r' \<and>
           r' = r\<lparr>attended := True, attendance_time := Some (now env)\<rparr> \<and>
           (\<forall>x\<in>set (registrations s). reg_id x \<noteq> rid \<longrightarrow> x \<in> set (registrations s')) \<and>
           mark_attendance env2 s' rid = (s', Inr AlreadyMarked)))"
proof (intro impI conjI)
  assume g: "get_registration (registrations s) rid = Some r" and "attended r"
  then show "mark_attendance env s rid = (s, Inr AlreadyMarked)"
    by (simp add: mark_attendance_def)
next
  assume g: "get_registration (registrations s) rid = Some r"
    and a: "\<not> attended r \<and> commit_ok env"
  let ?f = "\<lambda>r. r\<lparr>attended := True, attendance_time := Some (now env)\<rparr>"
  let ?s' = "s\<lparr>registrations := update_registration rid ?f (registrations s)\<rparr>"
  have m: "mark_attendance env s rid = (?s', Inr Marked)"
    using g a by (simp add: mark_attendance_def)
  have g': "get_registration (update_registration rid ?f regs) rid = Some (?f r)"
    if "get_registration regs rid = Some r" for regs
    using that unfolding get_registration_def update_registration_def
    by (induction regs) (auto split: if_splits)
  have maps: "map reg_status (update_registration rid ?f regs) = map reg_status regs"
    "map payment_status (update_registration rid ?f regs) = map payment_status regs"
    "map reg_id (update_registration rid ?f regs) = map reg_id regs" for regs
    unfolding update_registration_def by (induction regs) auto
  have others: "\<forall>x\<in>set (registrations s). reg_id x \<noteq> rid \<longrightarrow> x \<in> set (registrations ?s')"
    by (force simp: set_update_registration)
  have again: "mark_attendance env2 ?s' rid = (?s', Inr AlreadyMarked)"
    using g' [OF g] by (simp add: mark_attendance_def)
  show "\<exists>s' r'. mark_attendance env s rid = (s', Inr Marked) \<and>
           events s' = events s \<and> users s' = users s \<and>
           map reg_status (registrations s') = map reg_status (registrations s) \<and>
           map payment_status (registrations s') = map payment_status (registrations s) \<and>
           map reg_id (registrations s') = map reg_id (registrations s) \<and>
           get_registration (registrations s') rid = Some r' \<and>
           r' = r\<lparr>attended := True, attendance_time := Some (now env)\<rparr> \<and>
           (\<forall>x\<in>set (registrations s). reg_id x \<noteq> rid \<longrightarrow> x \<in> set (registrations s')) \<and>
           mark_attendance env2 s' rid = (s', Inr AlreadyMarked)"
    using m g' [OF g] maps others again by (intro exI [of _ ?s'] exI [of _ "?f r"]) simp
qed

text \<open>
  C10, witness: marking registration 1 of the sold-out event at time 70 sets the flag and
  the time, keeps both statuses and the seat counter; marking it again changes nothing.
\<close>

theorem attendance_is_a_flag_update_witness:
  "get_registration (registrations sold_out_store) 1 =
     Some (new_registration 1 1 1 ''confirmed'' ''not_required'' 10) \<and>
   \<not> attended (new_registration 1 1 1 ''confirmed'' ''not_required'' 10) \<and> commit_ok (env_ok 70) \<and>
   (\<exists>s' r'. mark_attendance (env_ok 70) sold_out_store 1 = (s', Inr Marked) \<and>
      events s' = events sold_out_store \<and>
      map reg_status (registrations s') = [''confirmed'', ''confirmed''] \<and>
      map payment_status (registrations s') = [''not_required'', ''not_required''] \<and>
      get_registration (registrations s') 1 = Some r' \<and> attended r' \<and>
      attendance_time r' = Some 70 \<and>
      mark_attendance (env_ok 80) s' 1 = (s', Inr AlreadyMarked))"
proof -
  let ?r = "new_registration 1 1 1 ''confirmed'' ''not_required'' 10"
  have h: "get_registration (registrations sold_out_store) 1 = Some ?r"
    "\<not> attended ?r" "commit_ok (env_ok 70)" "now (env_ok 70) = 70"
    by (simp_all add: sold_out_store_def get_registration_def new_registration_def env_ok_def)
  have l: "map reg_status (registrations sold_out_store) = [''confirmed'', ''confirmed'']"
    "map payment_status (registrations sold_out_store) = [''not_required'', ''not_required'']"
    by (simp_all add: sold_out_store_def new_registration_def)
  have "\<exists>s' r'. mark_attendance (env_ok 70) sold_out_store 1 = (s', Inr Marked) \<and>
      events s' = events sold_out_store \<and>
      map reg_status (registrations s') = [''confirmed'', ''confirmed''] \<and>
      map payment_status (registrations s') = [''not_required'', ''not_required''] \<and>
      get_registration (registrations s') 1 = Some r' \<and> attended r' \<and>
      attendance_time r' = Some 70 \<and>
      mark_attendance (env_ok 80) s' 1 = (s', Inr AlreadyMarked)"
    using h attendance_is_a_flag_update [where s = sold_out_store and rid = 1 and r = ?r
        and env = "env_ok 70" and ?env2.0 = "env_ok 80"]
    unfolding l by fastforce
  then show ?thesis using h by simp
qed

end
